theory Spec2Isabelle
  imports Complex_Main "HOL-Library.Multiset" "HOL-Library.Product_Lexorder" "HOL-Library.Log_Nat"
begin

section \<open>Local approximate changes (lac.h, my\_util.hpp)\<close>

text \<open>
  An \<open>assert(0)\<close> of the source aborts the run; the model returns \<open>Inl AssertionFailed\<close>.
\<close>

datatype abort = AssertionFailed

text \<open>
  \<open>class LAC\<close>. The \<open>double\<close> fields are modelled by the real numbers they denote; the
  values the estimator stores are integers converted to \<open>double\<close>, or the initial
  \<open>DBL_MAX\<close>.
\<close>

record LAC =
  targId :: nat
  sizeGain :: int
  err :: real
  err2 :: real
  divs :: "nat list"
  sop :: string

definition DBL_MAX :: real where
  "DBL_MAX = (2 ^ 53 - 1) * 2 ^ 971"

definition EPSILON :: real where
  "EPSILON = 1 / 10 ^ 8"

definition DoubleEqual :: "real \<Rightarrow> real \<Rightarrow> bool" where
  "DoubleEqual a b \<longleftrightarrow> \<bar>a - b\<bar> < EPSILON"

definition DoubleGreat :: "real \<Rightarrow> real \<Rightarrow> bool" where
  "DoubleGreat a b \<longleftrightarrow> a - b \<ge> EPSILON"

definition DoubleLess :: "real \<Rightarrow> real \<Rightarrow> bool" where
  "DoubleLess a b \<longleftrightarrow> a - b \<le> - EPSILON"

text \<open>\<open>Lac0BetterThanLac1\<close>: the third key of the source is commented out there.\<close>

definition Lac0BetterThanLac1 :: "LAC \<Rightarrow> LAC \<Rightarrow> bool" where
  "Lac0BetterThanLac1 pLac0 pLac1 =
     (if DoubleLess (err pLac0) (err pLac1) then True
      else if DoubleEqual (err pLac0) (err pLac1) \<and> sizeGain pLac0 > sizeGain pLac1 then True
      else False)"

text \<open>
  \<open>std::sort\<close> is the C++ library's. Its contract: when the comparison is a strict weak
  ordering of the elements, the result is a permutation of the input in which no element
  is better than an earlier one. Nothing is promised about the order of equivalent elements.
\<close>

definition strict_weak_order :: "'a set \<Rightarrow> ('a \<Rightarrow> 'a \<Rightarrow> bool) \<Rightarrow> bool" where
  "strict_weak_order A lt \<longleftrightarrow>
     (\<forall>x\<in>A. \<not> lt x x) \<and>
     (\<forall>x\<in>A. \<forall>y\<in>A. \<forall>z\<in>A. lt x y \<and> lt y z \<longrightarrow> lt x z) \<and>
     (\<forall>x\<in>A. \<forall>y\<in>A. \<forall>z\<in>A. \<not> lt x y \<and> \<not> lt y x \<and> \<not> lt y z \<and> \<not> lt z y \<longrightarrow> \<not> lt x z \<and> \<not> lt z x)"

definition std_sort_contract :: "((LAC \<Rightarrow> LAC \<Rightarrow> bool) \<Rightarrow> LAC list \<Rightarrow> LAC list) \<Rightarrow> bool" where
  "std_sort_contract srt \<longleftrightarrow>
     (\<forall>lt xs. strict_weak_order (set xs) lt \<longrightarrow>
        mset (srt lt xs) = mset xs \<and> sorted_wrt (\<lambda>a b. \<not> lt b a) (srt lt xs))"

text \<open>\<open>LACMan::SortAndKeepTopKLACs\<close>, on the list \<open>pLacs\<close>.\<close>

definition SortAndKeepTopKLACs ::
  "((LAC \<Rightarrow> LAC \<Rightarrow> bool) \<Rightarrow> LAC list \<Rightarrow> LAC list) \<Rightarrow> int \<Rightarrow> LAC list \<Rightarrow> abort + LAC list" where
  "SortAndKeepTopKLACs srt k pLacs =
     (if k < - 1 then Inl AssertionFailed
      else let sorted_lacs = srt Lac0BetterThanLac1 pLacs in
        if k \<ge> int (length sorted_lacs) then Inr sorted_lacs
        else if k \<noteq> - 1 then Inr (take (nat k) sorted_lacs)
        else Inr sorted_lacs)"

text \<open>
  An insertion sort, which is shown below to meet the contract: the theorem on
  \<open>SortAndKeepTopKLACs\<close> is applied to it at a concrete list. It is not what the library
  does; that comes further below.
\<close>

fun ins_after :: "('a \<Rightarrow> 'a \<Rightarrow> bool) \<Rightarrow> 'a \<Rightarrow> 'a list \<Rightarrow> 'a list" where
  "ins_after lt x [] = [x]"
| "ins_after lt x (y # ys) = (if lt x y then x # y # ys else y # ins_after lt x ys)"

definition insertion_sort :: "('a \<Rightarrow> 'a \<Rightarrow> bool) \<Rightarrow> 'a list \<Rightarrow> 'a list" where
  "insertion_sort lt xs = foldr (ins_after lt) xs []"

definition lac_key :: "LAC \<Rightarrow> real \<times> int" where
  "lac_key l = (err l, sizeGain l)"



subsection \<open>The comparison on integer-valued errors\<close>

text \<open>
  The estimator stores integers, so the tolerance \<open>EPSILON\<close> never merges two different
  error values: on such values the comparison is the lexicographic order of
  (error, \<open>-sizeGain\<close>).
\<close>

lemma int_less_eps:
  assumes "a \<in> \<int>" "b \<in> \<int>"
  shows "DoubleLess a b \<longleftrightarrow> a < b"
proof -
  from assms obtain i j :: int where a: "a = of_int i" and b: "b = of_int j"
    by (auto elim!: Ints_cases)
  have "a - b = of_int (i - j)" by (simp add: a b)
  show ?thesis
  proof
    assume "DoubleLess a b"
    then have "a - b < 0" by (simp add: DoubleLess_def EPSILON_def)
    then show "a < b" by simp
  next
    assume "a < b"
    then have "i < j" by (simp add: a b)
    then have "i - j \<le> - 1" by simp
    then have "(of_int (i - j) :: real) \<le> of_int (- 1)" by (rule of_int_le_iff [THEN iffD2])
    then have "a - b \<le> - 1" by (simp add: a b)
    then show "DoubleLess a b" by (simp add: DoubleLess_def EPSILON_def)
  qed
qed

lemma int_equal_eps:
  assumes "a \<in> \<int>" "b \<in> \<int>"
  shows "DoubleEqual a b \<longleftrightarrow> a = b"
proof -
  from assms obtain i j :: int where a: "a = of_int i" and b: "b = of_int j"
    by (auto elim!: Ints_cases)
  show ?thesis
  proof
    assume "DoubleEqual a b"
    then have "\<bar>a - b\<bar> < 1" by (simp add: DoubleEqual_def EPSILON_def)
    then have "\<bar>(of_int (i - j) :: real)\<bar> < 1" by (simp add: a b)
    then have "\<bar>i - j\<bar> < 1" by linarith
    then show "a = b" by (simp add: a b)
  next
    assume "a = b"
    then show "DoubleEqual a b" by (simp add: DoubleEqual_def EPSILON_def)
  qed
qed

definition ord_key :: "LAC \<Rightarrow> real \<times> int" where
  "ord_key l = (err l, - sizeGain l)"

lemma better_iff_key:
  assumes "err a \<in> \<int>" "err b \<in> \<int>"
  shows "Lac0BetterThanLac1 a b \<longleftrightarrow> ord_key a < ord_key b"
  using int_less_eps [OF assms] int_equal_eps [OF assms]
  by (auto simp: Lac0BetterThanLac1_def ord_key_def less_prod_def)

lemma swo_better:
  assumes "\<forall>l\<in>set xs. err l \<in> \<int>"
  shows "strict_weak_order (set xs) Lac0BetterThanLac1"
  unfolding strict_weak_order_def
  using assms by (auto simp: better_iff_key)


subsection \<open>The insertion sort meets the contract of \<open>std::sort\<close>\<close>

lemma mset_ins_after: "mset (ins_after lt x ys) = add_mset x (mset ys)"
  by (induction ys) auto

lemma set_ins_after: "set (ins_after lt x ys) = insert x (set ys)"
  by (induction ys) auto

lemma mset_insertion_sort: "mset (insertion_sort lt xs) = mset xs"
  by (induction xs) (auto simp: insertion_sort_def mset_ins_after)

lemma sorted_ins_after:
  assumes irr: "\<forall>a\<in>A. \<not> lt a a"
    and tr: "\<forall>a\<in>A. \<forall>b\<in>A. \<forall>c\<in>A. lt a b \<and> lt b c \<longrightarrow> lt a c"
    and "x \<in> A" "set ys \<subseteq> A" "sorted_wrt (\<lambda>a b. \<not> lt b a) ys"
  shows "sorted_wrt (\<lambda>a b. \<not> lt b a) (ins_after lt x ys)"
  using assms(3-)
proof (induction ys)
  case Nil
  then show ?case by simp
next
  case (Cons y ys)
  show ?case
  proof (cases "lt x y")
    case True
    have "\<not> lt z x" if "z \<in> set (y # ys)" for z
    proof
      assume zx: "lt z x"
      have zA: "z \<in> A" using that Cons.prems by auto
      have yA: "y \<in> A" using Cons.prems by auto
      from zx True tr zA yA Cons.prems(1) have zy: "lt z y" by blast
      show False
      proof (cases "z = y")
        case True
        with zy irr yA show False by blast
      next
        case False
        with that have "z \<in> set ys" by simp
        with Cons.prems(3) have "\<not> lt z y" by simp
        with zy show False by simp
      qed
    qed
    with True Cons.prems show ?thesis by simp
  next
    case False
    with Cons show ?thesis by (auto simp: set_ins_after)
  qed
qed

lemma set_insertion_sort: "set (insertion_sort lt xs) = set xs"
  using mset_insertion_sort [of lt xs] by (metis set_mset_mset)

lemma sorted_insertion_sort:
  assumes irr: "\<forall>a\<in>A. \<not> lt a a"
    and tr: "\<forall>a\<in>A. \<forall>b\<in>A. \<forall>c\<in>A. lt a b \<and> lt b c \<longrightarrow> lt a c"
    and "set xs \<subseteq> A"
  shows "sorted_wrt (\<lambda>a b. \<not> lt b a) (insertion_sort lt xs)"
  using assms(3)
proof (induction xs)
  case Nil
  then show ?case by (simp add: insertion_sort_def)
next
  case (Cons x xs)
  have "insertion_sort lt (x # xs) = ins_after lt x (insertion_sort lt xs)"
    by (simp add: insertion_sort_def)
  moreover have "sorted_wrt (\<lambda>a b. \<not> lt b a) (ins_after lt x (insertion_sort lt xs))"
    using Cons by (intro sorted_ins_after [OF irr tr]) (auto simp: set_insertion_sort)
  ultimately show ?case by simp
qed

lemma insertion_sort_contract: "std_sort_contract insertion_sort"
  unfolding std_sort_contract_def
proof (intro allI impI conjI)
  fix lt :: "LAC \<Rightarrow> LAC \<Rightarrow> bool" and xs
  show "mset (insertion_sort lt xs) = mset xs" by (rule mset_insertion_sort)
  assume "strict_weak_order (set xs) lt"
  then have "\<forall>a\<in>set xs. \<not> lt a a"
    and "\<forall>a\<in>set xs. \<forall>b\<in>set xs. \<forall>c\<in>set xs. lt a b \<and> lt b c \<longrightarrow> lt a c"
    unfolding strict_weak_order_def by blast+
  then show "sorted_wrt (\<lambda>a b. \<not> lt b a) (insertion_sort lt xs)"
    by (rule sorted_insertion_sort) simp
qed

lemma sorted_wrt_better_key:
  assumes "\<forall>l\<in>set ys. err l \<in> \<int>"
  shows "sorted_wrt (\<lambda>a b. \<not> Lac0BetterThanLac1 b a) ys \<longleftrightarrow> sorted (map ord_key ys)"
  using assms
proof (induction ys)
  case Nil
  then show ?case by simp
next
  case (Cons y ys)
  then show ?case by (auto simp: better_iff_key not_less)
qed

lemma sorted_same_mset_keys:
  assumes "\<forall>l\<in>set ys. err l \<in> \<int>" "mset zs = mset ys"
    and "sorted_wrt (\<lambda>a b. \<not> Lac0BetterThanLac1 b a) ys"
    and "sorted_wrt (\<lambda>a b. \<not> Lac0BetterThanLac1 b a) zs"
  shows "map ord_key zs = map ord_key ys"
proof -
  have "set zs = set ys" using assms(2) by (metis set_mset_mset)
  with assms have "sorted (map ord_key ys)" "sorted (map ord_key zs)"
    by (simp_all add: sorted_wrt_better_key)
  moreover have "mset (map ord_key zs) = mset (map ord_key ys)"
    using assms(2) by simp
  ultimately show ?thesis
    by (metis properties_for_sort)
qed

lemma ord_key_lac_key: "map ord_key zs = map ord_key ys \<Longrightarrow> map lac_key zs = map lac_key ys"
proof (induction zs arbitrary: ys)
  case Nil
  then show ?case by simp
next
  case (Cons z zs)
  then obtain y ys' where "ys = y # ys'" by (cases ys) auto
  with Cons show ?case by (auto simp: ord_key_def lac_key_def)
qed


subsection \<open>Sorting and keeping the top k\<close>

definition lacA :: LAC where
  "lacA = \<lparr>targId = 3, sizeGain = 1, err = 0, err2 = DBL_MAX, divs = [], sop = [CHR '' '', CHR ''0'', CHR 0x0A]\<rparr>"
definition lacB :: LAC where
  "lacB = \<lparr>targId = 3, sizeGain = 1, err = 0, err2 = DBL_MAX, divs = [], sop = [CHR '' '', CHR ''1'', CHR 0x0A]\<rparr>"
definition lacC :: LAC where
  "lacC = \<lparr>targId = 4, sizeGain = 2, err = 1, err2 = DBL_MAX, divs = [2], sop = [CHR ''1'', CHR '' '', CHR ''1'', CHR 0x0A]\<rparr>"

text \<open>
  The order the claim names, written out: candidate \<open>a\<close> is not behind candidate \<open>b\<close> when
  its error is smaller, or the errors are equal and its size gain is at least as large.
\<close>

definition key_le :: "LAC \<Rightarrow> LAC \<Rightarrow> bool" where
  "key_le a b \<longleftrightarrow> err a < err b \<or> (err a = err b \<and> sizeGain b \<le> sizeGain a)"

lemma not_better_key_le:
  assumes "err a \<in> \<int>" "err b \<in> \<int>"
  shows "\<not> Lac0BetterThanLac1 b a \<longleftrightarrow> key_le a b"
  using int_less_eps [OF assms(2,1)] int_equal_eps [OF assms(2,1)]
  by (auto simp: Lac0BetterThanLac1_def key_le_def)

lemma sorted_wrt_key_le:
  assumes "\<forall>l\<in>set ys. err l \<in> \<int>"
  shows "sorted_wrt (\<lambda>a b. \<not> Lac0BetterThanLac1 b a) ys \<longleftrightarrow> sorted_wrt key_le ys"
  using assms
proof (induction ys)
  case Nil
  then show ?case by simp
next
  case (Cons y ys)
  then show ?case by (auto simp: not_better_key_le)
qed

text \<open>
  C6 (amended). For every list of candidates with integer-valued errors, every \<open>k \<ge> 0\<close> and
  every sort that meets the contract of \<open>std::sort\<close>, \<open>SortAndKeepTopKLACs k\<close> retains
  \<open>min k n\<close> candidates of the list, in the order of smaller error and then larger size gain,
  and every retained candidate is not behind any dropped one in that order. A second
  application returns the same candidates with the same sequence of (error, sizeGain) keys;
  the order of tied candidates is not fixed.
\<close>

theorem SortAndKeepTopKLACs_keeps_k_best:
  assumes srt: "std_sort_contract srt"
    and ints: "\<forall>l\<in>set pLacs. err l \<in> \<int>"
    and k: "0 \<le> k"
  shows "\<exists>kept. SortAndKeepTopKLACs srt k pLacs = Inr kept
      \<and> length kept = min (nat k) (length pLacs)
      \<and> mset kept \<subseteq># mset pLacs
      \<and> sorted_wrt key_le kept
      \<and> (\<forall>a\<in>set kept. \<forall>b\<in>#(mset pLacs - mset kept). key_le a b)
      \<and> (\<exists>again. SortAndKeepTopKLACs srt k kept = Inr again
            \<and> mset again = mset kept \<and> map lac_key again = map lac_key kept)"
proof -
  define s where "s = srt Lac0BetterThanLac1 pLacs"
  define kept where "kept = take (nat k) s"
  have swo: "strict_weak_order (set pLacs) Lac0BetterThanLac1"
    using ints by (rule swo_better)
  from srt swo have ms: "mset s = mset pLacs"
    and so: "sorted_wrt (\<lambda>a b. \<not> Lac0BetterThanLac1 b a) s"
    unfolding std_sort_contract_def s_def by blast+
  have len: "length s = length pLacs" using ms by (metis size_mset)
  have sints: "\<forall>l\<in>set s. err l \<in> \<int>"
    using ints ms by (metis set_mset_mset)
  have res: "SortAndKeepTopKLACs srt k pLacs = Inr kept"
    using k by (auto simp: SortAndKeepTopKLACs_def Let_def s_def [symmetric] kept_def)
  have lk: "length kept = min (nat k) (length pLacs)"
    by (simp add: kept_def len min.commute)
  have split: "mset pLacs = mset kept + mset (drop (nat k) s)"
    unfolding kept_def ms [symmetric] by (metis append_take_drop_id mset_append)
  then have sub: "mset kept \<subseteq># mset pLacs" by simp
  have "sorted_wrt key_le (kept @ drop (nat k) s)"
    using so sints by (simp add: kept_def sorted_wrt_key_le)
  then have sk: "sorted_wrt key_le kept"
    and cross: "\<forall>a\<in>set kept. \<forall>b\<in>set (drop (nat k) s). key_le a b"
    by (simp_all add: sorted_wrt_append)
  have rest: "mset pLacs - mset kept = mset (drop (nat k) s)" using split by simp
  have dropped: "\<forall>a\<in>set kept. \<forall>b\<in>#(mset pLacs - mset kept). key_le a b"
    unfolding rest using cross by simp
  have kints: "\<forall>l\<in>set kept. err l \<in> \<int>"
    using ints sub by (metis mset_subset_eqD set_mset_mset)
  have sk0: "sorted_wrt (\<lambda>a b. \<not> Lac0BetterThanLac1 b a) kept"
    using sk kints by (simp add: sorted_wrt_key_le)
  define s2 where "s2 = srt Lac0BetterThanLac1 kept"
  from srt swo_better [OF kints] have ms2: "mset s2 = mset kept"
    and so2: "sorted_wrt (\<lambda>a b. \<not> Lac0BetterThanLac1 b a) s2"
    unfolding std_sort_contract_def s2_def by blast+
  have len2: "length s2 = length kept" using ms2 by (metis size_mset)
  have "length s2 \<le> nat k" using len2 lk by simp
  then have res2: "SortAndKeepTopKLACs srt k kept = Inr s2"
    using k by (auto simp: SortAndKeepTopKLACs_def Let_def s2_def [symmetric])
  have "map lac_key s2 = map lac_key kept"
    using sorted_same_mset_keys [OF kints ms2 sk0 so2] by (rule ord_key_lac_key)
  with res lk sub sk dropped res2 ms2 show ?thesis by blast
qed

text \<open>The theorem at three candidates, two of them tied, with \<open>k = 2\<close>.\<close>

theorem SortAndKeepTopKLACs_keeps_k_best_witness:
  "std_sort_contract insertion_sort \<and> err lacC \<in> \<int> \<and> err lacA \<in> \<int> \<and> err lacB \<in> \<int> \<and>
   (\<exists>kept. SortAndKeepTopKLACs insertion_sort 2 [lacC, lacA, lacB] = Inr kept
      \<and> length kept = min (nat 2) (length [lacC, lacA, lacB])
      \<and> mset kept \<subseteq># mset [lacC, lacA, lacB]
      \<and> sorted_wrt key_le kept
      \<and> (\<forall>a\<in>set kept. \<forall>b\<in>#(mset [lacC, lacA, lacB] - mset kept). key_le a b)
      \<and> (\<exists>again. SortAndKeepTopKLACs insertion_sort 2 kept = Inr again
            \<and> mset again = mset kept \<and> map lac_key again = map lac_key kept))"
proof -
  have i: "err lacC \<in> \<int>" "err lacA \<in> \<int>" "err lacB \<in> \<int>"
    by (simp_all add: lacA_def lacB_def lacC_def)
  then have ints: "\<forall>l\<in>set [lacC, lacA, lacB]. err l \<in> \<int>" by simp
  have k: "(0::int) \<le> 2" by simp
  note main = SortAndKeepTopKLACs_keeps_k_best [OF insertion_sort_contract ints k]
  show ?thesis
    by (intro conjI insertion_sort_contract i main)
qed


subsection \<open>\<open>std::sort\<close> as the GNU C++ library implements it\<close>

text \<open>
  Modelled from the spec: \<open>std::sort\<close> is the C++ library's, not in the repository's files;
  the spec leaves the order of ties open. This is the sort of the GNU C++ library
  (\<open>bits/stl_algo.h\<close>, \<open>bits/stl_heap.h\<close>) on a vector: an introsort that partitions
  around the median of three while a range has more than \<open>_S_threshold = 16\<close> elements, falls
  back to a heap sort when the depth limit \<open>2 * lg n\<close> is used up, and finishes with an
  insertion sort. Iterators are positions in the list. The unguarded loops of the library rely
  on a sentinel; in the model they also stop at the ends of the list.
\<close>

definition iter_swap :: "nat \<Rightarrow> nat \<Rightarrow> 'a list \<Rightarrow> 'a list" where
  "iter_swap i j xs = xs[i := xs ! j, j := xs ! i]"

definition move_median_to_first ::
  "('a \<Rightarrow> 'a \<Rightarrow> bool) \<Rightarrow> nat \<Rightarrow> nat \<Rightarrow> nat \<Rightarrow> nat \<Rightarrow> 'a list \<Rightarrow> 'a list" where
  "move_median_to_first cmp result a b c xs =
     (if cmp (xs ! a) (xs ! b) then
        (if cmp (xs ! b) (xs ! c) then iter_swap result b xs
         else if cmp (xs ! a) (xs ! c) then iter_swap result c xs
         else iter_swap result a xs)
      else if cmp (xs ! a) (xs ! c) then iter_swap result a xs
      else if cmp (xs ! b) (xs ! c) then iter_swap result c xs
      else iter_swap result b xs)"

function scan_up :: "('a \<Rightarrow> 'a \<Rightarrow> bool) \<Rightarrow> 'a list \<Rightarrow> nat \<Rightarrow> nat \<Rightarrow> nat" where
  "scan_up cmp xs pivot first =
     (if first < length xs \<and> cmp (xs ! first) (xs ! pivot)
      then scan_up cmp xs pivot (Suc first) else first)"
  by pat_completeness auto
termination
  by (relation "measure (\<lambda>(cmp, xs, pivot, first). length xs - first)") auto

function scan_down :: "('a \<Rightarrow> 'a \<Rightarrow> bool) \<Rightarrow> 'a list \<Rightarrow> nat \<Rightarrow> nat \<Rightarrow> nat" where
  "scan_down cmp xs pivot lasti =
     (if 0 < lasti \<and> cmp (xs ! pivot) (xs ! lasti)
      then scan_down cmp xs pivot (lasti - 1) else lasti)"
  by pat_completeness auto
termination
  by (relation "measure (\<lambda>(cmp, xs, pivot, lasti). lasti)") auto

declare scan_up.simps [simp del] scan_down.simps [simp del]

lemma scan_up_ge: "first \<le> scan_up cmp xs pivot first"
proof (induction cmp xs pivot first rule: scan_up.induct)
  case (1 cmp xs pivot first)
  show ?case
  proof (cases "first < length xs \<and> cmp (xs ! first) (xs ! pivot)")
    case True
    with 1 have "Suc first \<le> scan_up cmp xs pivot (Suc first)" by simp
    with True show ?thesis by (subst scan_up.simps) simp
  next
    case False
    then show ?thesis by (subst scan_up.simps) auto
  qed
qed

lemma scan_down_le: "scan_down cmp xs pivot lasti \<le> lasti"
proof (induction cmp xs pivot lasti rule: scan_down.induct)
  case (1 cmp xs pivot lasti)
  show ?case
  proof (cases "0 < lasti \<and> cmp (xs ! pivot) (xs ! lasti)")
    case True
    with 1 have "scan_down cmp xs pivot (lasti - 1) \<le> lasti - 1" by simp
    with True show ?thesis by (subst scan_down.simps) simp
  next
    case False
    then show ?thesis by (subst scan_down.simps) auto
  qed
qed

function unguarded_partition ::
  "('a \<Rightarrow> 'a \<Rightarrow> bool) \<Rightarrow> 'a list \<Rightarrow> nat \<Rightarrow> nat \<Rightarrow> nat \<Rightarrow> nat \<times> 'a list" where
  "unguarded_partition cmp xs first lasti pivot =
     (if \<not> scan_up cmp xs pivot first < scan_down cmp xs pivot (lasti - 1)
      then (scan_up cmp xs pivot first, xs)
      else unguarded_partition cmp
             (iter_swap (scan_up cmp xs pivot first) (scan_down cmp xs pivot (lasti - 1)) xs)
             (Suc (scan_up cmp xs pivot first)) (scan_down cmp xs pivot (lasti - 1)) pivot)"
  by pat_completeness auto
termination
proof (relation "measure (\<lambda>(cmp, xs, first, lasti, pivot). lasti - first)")
  show "wf (measure (\<lambda>(cmp, xs, first, lasti, pivot). lasti - first))" by simp
next
  fix cmp :: "'a \<Rightarrow> 'a \<Rightarrow> bool" and xs :: "'a list" and first lasti pivot :: nat
  assume "\<not> \<not> scan_up cmp xs pivot first < scan_down cmp xs pivot (lasti - 1)"
  then have lt: "scan_up cmp xs pivot first < scan_down cmp xs pivot (lasti - 1)" by simp
  have "first \<le> scan_up cmp xs pivot first" by (rule scan_up_ge)
  moreover have "scan_down cmp xs pivot (lasti - 1) \<le> lasti - 1" by (rule scan_down_le)
  ultimately have "scan_down cmp xs pivot (lasti - 1) - Suc (scan_up cmp xs pivot first) < lasti - first"
    using lt by linarith
  then show "((cmp, iter_swap (scan_up cmp xs pivot first) (scan_down cmp xs pivot (lasti - 1)) xs,
         Suc (scan_up cmp xs pivot first), scan_down cmp xs pivot (lasti - 1), pivot),
        (cmp, xs, first, lasti, pivot)) \<in> measure (\<lambda>(cmp, xs, first, lasti, pivot). lasti - first)"
    by simp
qed

declare unguarded_partition.simps [simp del]


function unguarded_linear_insert :: "('a \<Rightarrow> 'a \<Rightarrow> bool) \<Rightarrow> 'a \<Rightarrow> nat \<Rightarrow> 'a list \<Rightarrow> 'a list" where
  "unguarded_linear_insert cmp val lasti xs =
     (if 0 < lasti \<and> cmp val (xs ! (lasti - 1))
      then unguarded_linear_insert cmp val (lasti - 1) (xs[lasti := xs ! (lasti - 1)])
      else xs[lasti := val])"
  by pat_completeness auto
termination
  by (relation "measure (\<lambda>(cmp, val, lasti, xs). lasti)") auto

declare unguarded_linear_insert.simps [simp del]

definition move_backward_insert :: "nat \<Rightarrow> nat \<Rightarrow> 'a list \<Rightarrow> 'a list" where
  "move_backward_insert first i xs =
     take first xs @ xs ! i # take (i - first) (drop first xs) @ drop (Suc i) xs"

definition std_insertion_sort :: "('a \<Rightarrow> 'a \<Rightarrow> bool) \<Rightarrow> nat \<Rightarrow> nat \<Rightarrow> 'a list \<Rightarrow> 'a list" where
  "std_insertion_sort cmp first lasti xs =
     fold (\<lambda>i ys. if cmp (ys ! i) (ys ! first) then move_backward_insert first i ys
                   else unguarded_linear_insert cmp (ys ! i) i ys)
       [Suc first..<lasti] xs"

definition unguarded_insertion_sort :: "('a \<Rightarrow> 'a \<Rightarrow> bool) \<Rightarrow> nat \<Rightarrow> nat \<Rightarrow> 'a list \<Rightarrow> 'a list" where
  "unguarded_insertion_sort cmp first lasti xs =
     fold (\<lambda>i ys. unguarded_linear_insert cmp (ys ! i) i ys) [first..<lasti] xs"

definition S_threshold :: nat where
  "S_threshold = 16"

definition final_insertion_sort :: "('a \<Rightarrow> 'a \<Rightarrow> bool) \<Rightarrow> nat \<Rightarrow> nat \<Rightarrow> 'a list \<Rightarrow> 'a list" where
  "final_insertion_sort cmp first lasti xs =
     (if lasti - first > S_threshold
      then unguarded_insertion_sort cmp (first + S_threshold) lasti
             (std_insertion_sort cmp first (first + S_threshold) xs)
      else std_insertion_sort cmp first lasti xs)"

function push_heap :: "('a \<Rightarrow> 'a \<Rightarrow> bool) \<Rightarrow> 'a list \<Rightarrow> nat \<Rightarrow> nat \<Rightarrow> 'a \<Rightarrow> 'a list" where
  "push_heap cmp ys holeIndex topIndex val =
     (if holeIndex > topIndex \<and> cmp (ys ! ((holeIndex - 1) div 2)) val
      then push_heap cmp (ys[holeIndex := ys ! ((holeIndex - 1) div 2)]) ((holeIndex - 1) div 2) topIndex val
      else ys[holeIndex := val])"
  by pat_completeness auto
termination
  by (relation "measure (\<lambda>(cmp, ys, holeIndex, topIndex, val). holeIndex)") auto

declare push_heap.simps [simp del]

function sift_down :: "('a \<Rightarrow> 'a \<Rightarrow> bool) \<Rightarrow> nat \<Rightarrow> 'a list \<Rightarrow> nat \<Rightarrow> 'a list \<times> nat" where
  "sift_down cmp len ys secondChild =
     (if secondChild < (len - 1) div 2
      then let child = (if cmp (ys ! (2 * (secondChild + 1))) (ys ! (2 * (secondChild + 1) - 1))
                        then 2 * (secondChild + 1) - 1 else 2 * (secondChild + 1))
           in sift_down cmp len (ys[secondChild := ys ! child]) child
      else (ys, secondChild))"
  by pat_completeness auto
termination
  by (relation "measure (\<lambda>(cmp, len, ys, secondChild). len - secondChild)") (auto simp: Let_def)

declare sift_down.simps [simp del]

definition adjust_heap :: "('a \<Rightarrow> 'a \<Rightarrow> bool) \<Rightarrow> 'a list \<Rightarrow> nat \<Rightarrow> nat \<Rightarrow> 'a \<Rightarrow> 'a list" where
  "adjust_heap cmp ys holeIndex len val =
     (let (ys1, secondChild) = sift_down cmp len ys holeIndex
      in if even len \<and> 2 \<le> len \<and> secondChild = (len - 2) div 2
         then push_heap cmp (ys1[secondChild := ys1 ! (2 * (secondChild + 1) - 1)])
                (2 * (secondChild + 1) - 1) holeIndex val
         else push_heap cmp ys1 secondChild holeIndex val)"

definition make_heap :: "('a \<Rightarrow> 'a \<Rightarrow> bool) \<Rightarrow> 'a list \<Rightarrow> 'a list" where
  "make_heap cmp ys =
     (if length ys < 2 then ys
      else fold (\<lambda>parent zs. adjust_heap cmp zs parent (length ys) (zs ! parent))
             (rev [0..<Suc ((length ys - 2) div 2)]) ys)"

definition sort_heap :: "('a \<Rightarrow> 'a \<Rightarrow> bool) \<Rightarrow> 'a list \<Rightarrow> 'a list" where
  "sort_heap cmp ys =
     fold (\<lambda>lasti zs. adjust_heap cmp (zs[lasti := zs ! 0]) 0 lasti (zs ! lasti))
       (rev [1..<length ys]) ys"

definition partial_sort :: "('a \<Rightarrow> 'a \<Rightarrow> bool) \<Rightarrow> nat \<Rightarrow> nat \<Rightarrow> 'a list \<Rightarrow> 'a list" where
  "partial_sort cmp first lasti xs =
     take first xs @ sort_heap cmp (make_heap cmp (take (lasti - first) (drop first xs))) @ drop lasti xs"

function introsort_loop :: "('a \<Rightarrow> 'a \<Rightarrow> bool) \<Rightarrow> 'a list \<Rightarrow> nat \<Rightarrow> nat \<Rightarrow> nat \<Rightarrow> 'a list" where
  "introsort_loop cmp xs first lasti depth_limit =
     (if \<not> lasti - first > S_threshold then xs
      else if depth_limit = 0 then partial_sort cmp first lasti xs
      else case unguarded_partition cmp
                  (move_median_to_first cmp first (first + 1) (first + (lasti - first) div 2) (lasti - 1) xs)
                  (first + 1) lasti first of
          (cuti, xs1) \<Rightarrow>
            introsort_loop cmp (introsort_loop cmp xs1 cuti lasti (depth_limit - 1)) first cuti (depth_limit - 1))"
  by pat_completeness auto
termination
  by (relation "measure (\<lambda>(cmp, xs, first, lasti, depth_limit). depth_limit)") auto

declare introsort_loop.simps [simp del]

definition std_sort_gnu :: "('a \<Rightarrow> 'a \<Rightarrow> bool) \<Rightarrow> 'a list \<Rightarrow> 'a list" where
  "std_sort_gnu cmp xs =
     (if xs = [] then xs
      else final_insertion_sort cmp 0 (length xs)
             (introsort_loop cmp xs 0 (length xs) (2 * (floorlog 2 (length xs) - 1))))"



subsection \<open>Seventeen tied candidates\<close>

text \<open>
  Constant-0 candidates at seventeen nodes, all with error 0 and size gain 1, and the orders
  in which the library sort leaves them.
\<close>

definition tied_lac :: "nat \<Rightarrow> LAC" where
  "tied_lac i = \<lparr>targId = i, sizeGain = 1, err = 0, err2 = DBL_MAX, divs = [], sop = [CHR '' '', CHR ''0'', CHR 0x0A]\<rparr>"

definition tied17 :: "LAC list" where
  "tied17 = [tied_lac 0, tied_lac 1, tied_lac 2, tied_lac 3, tied_lac 4, tied_lac 5, tied_lac 6,
     tied_lac 7, tied_lac 8, tied_lac 9, tied_lac 10, tied_lac 11, tied_lac 12, tied_lac 13,
     tied_lac 14, tied_lac 15, tied_lac 16]"

definition tied17_median :: "LAC list" where
  "tied17_median = [tied_lac 8, tied_lac 1, tied_lac 2, tied_lac 3, tied_lac 4, tied_lac 5, tied_lac 6,
     tied_lac 7, tied_lac 0, tied_lac 9, tied_lac 10, tied_lac 11, tied_lac 12, tied_lac 13,
     tied_lac 14, tied_lac 15, tied_lac 16]"

definition tied17_once :: "LAC list" where
  "tied17_once = [tied_lac 8, tied_lac 16, tied_lac 15, tied_lac 14, tied_lac 13, tied_lac 12,
     tied_lac 11, tied_lac 10, tied_lac 9, tied_lac 0, tied_lac 7, tied_lac 6, tied_lac 5,
     tied_lac 4, tied_lac 3, tied_lac 2, tied_lac 1]"

definition tied17_once_median :: "LAC list" where
  "tied17_once_median = [tied_lac 9, tied_lac 16, tied_lac 15, tied_lac 14, tied_lac 13, tied_lac 12,
     tied_lac 11, tied_lac 10, tied_lac 8, tied_lac 0, tied_lac 7, tied_lac 6, tied_lac 5,
     tied_lac 4, tied_lac 3, tied_lac 2, tied_lac 1]"

definition tied17_twice :: "LAC list" where
  "tied17_twice = [tied_lac 9, tied_lac 1, tied_lac 2, tied_lac 3, tied_lac 4, tied_lac 5, tied_lac 6,
     tied_lac 7, tied_lac 0, tied_lac 8, tied_lac 10, tied_lac 11, tied_lac 12, tied_lac 13,
     tied_lac 14, tied_lac 15, tied_lac 16]"

lemma tied_lac_tie: "Lac0BetterThanLac1 (tied_lac i) (tied_lac j) = False"
  by (simp add: Lac0BetterThanLac1_def DoubleLess_def DoubleEqual_def EPSILON_def tied_lac_def)

lemma floorlog_17: "floorlog 2 (17::nat) = 5"
  by code_simp

lemma introsort_loop_small:
  "\<not> lasti - first > S_threshold \<Longrightarrow> introsort_loop cmp xs first lasti d = xs"
  by (subst introsort_loop.simps) simp

lemma introsort_loop_step:
  "lasti - first > S_threshold \<Longrightarrow> d \<noteq> 0 \<Longrightarrow>
   unguarded_partition cmp
     (move_median_to_first cmp first (first + 1) (first + (lasti - first) div 2) (lasti - 1) xs)
     (first + 1) lasti first = (cuti, xs1) \<Longrightarrow>
   introsort_loop cmp xs first lasti d =
     introsort_loop cmp (introsort_loop cmp xs1 cuti lasti (d - 1)) first cuti (d - 1)"
  by (subst introsort_loop.simps) simp

lemma fold_fixed: "\<forall>i\<in>set js. f i xs = xs \<Longrightarrow> fold f js xs = xs"
  by (induction js) simp_all

lemma insertion_sorts_tied:
  assumes "\<forall>a\<in>set xs. \<forall>b\<in>set xs. \<not> cmp a b" and "lasti \<le> length xs"
  shows "std_insertion_sort cmp first lasti xs = xs"
    and "unguarded_insertion_sort cmp first lasti xs = xs"
proof -
  have u: "unguarded_linear_insert cmp (xs ! i) i xs = xs" if "i < length xs" for i
  proof (cases "0 < i")
    case True
    with that assms(1) have "\<not> cmp (xs ! i) (xs ! (i - 1))" by simp
    then show ?thesis by (subst unguarded_linear_insert.simps) simp
  next
    case False
    then show ?thesis by (subst unguarded_linear_insert.simps) simp
  qed
  show "unguarded_insertion_sort cmp first lasti xs = xs"
    unfolding unguarded_insertion_sort_def using u assms(2) by (intro fold_fixed) auto
  have "\<not> cmp (xs ! i) (xs ! first)" if "i < length xs" "first < i" for i
    using that assms(1) by simp
  then show "std_insertion_sort cmp first lasti xs = xs"
    unfolding std_insertion_sort_def using u assms(2) by (intro fold_fixed) auto
qed

lemma final_insertion_sort_tied:
  assumes "\<forall>a\<in>set xs. \<forall>b\<in>set xs. \<not> cmp a b" and "lasti \<le> length xs"
  shows "final_insertion_sort cmp first lasti xs = xs"
  using assms by (simp add: final_insertion_sort_def insertion_sorts_tied)

lemma median_tied17:
  "move_median_to_first Lac0BetterThanLac1 0 1 8 16 tied17 = tied17_median"
  by (simp add: tied17_def tied17_median_def move_median_to_first_def iter_swap_def tied_lac_tie)

lemma partition_tied17:
  "unguarded_partition Lac0BetterThanLac1 tied17_median 1 17 0 = (9, tied17_once)"
  by (simp add: tied17_median_def tied17_once_def unguarded_partition.simps scan_up.simps
        scan_down.simps iter_swap_def tied_lac_tie)

lemma median_tied17_once:
  "move_median_to_first Lac0BetterThanLac1 0 1 8 16 tied17_once = tied17_once_median"
  by (simp add: tied17_once_def tied17_once_median_def move_median_to_first_def iter_swap_def tied_lac_tie)

lemma partition_tied17_once:
  "unguarded_partition Lac0BetterThanLac1 tied17_once_median 1 17 0 = (9, tied17_twice)"
  by (simp add: tied17_once_median_def tied17_twice_def unguarded_partition.simps scan_up.simps
        scan_down.simps iter_swap_def tied_lac_tie)

lemma introsort_17:
  assumes m: "move_median_to_first cmp 0 1 8 16 xs = ys"
    and p: "unguarded_partition cmp ys 1 17 0 = (9, zs)"
  shows "introsort_loop cmp xs 0 17 8 = zs"
proof -
  have "unguarded_partition cmp
     (move_median_to_first cmp 0 (0 + 1) (0 + (17 - 0) div 2) (17 - 1) xs) (0 + 1) 17 0 = (9, zs)"
    using m p by simp
  then have "introsort_loop cmp xs 0 17 8 =
     introsort_loop cmp (introsort_loop cmp zs 9 17 (8 - 1)) 0 9 (8 - 1)"
    by (intro introsort_loop_step) (simp_all add: S_threshold_def)
  then show ?thesis by (simp add: introsort_loop_small S_threshold_def)
qed

lemma std_sort_gnu_17:
  assumes "length xs = 17" "length zs = 17"
    and "move_median_to_first cmp 0 1 8 16 xs = ys"
    and "unguarded_partition cmp ys 1 17 0 = (9, zs)"
    and "\<forall>a\<in>set zs. \<forall>b\<in>set zs. \<not> cmp a b"
  shows "std_sort_gnu cmp xs = zs"
proof -
  have "xs \<noteq> []" using assms(1) by auto
  then show ?thesis
    using assms(1,2) introsort_17 [OF assms(3,4)] final_insertion_sort_tied [OF assms(5), of 17 0]
    by (simp add: std_sort_gnu_def floorlog_17)
qed

lemma std_sort_gnu_tied17: "std_sort_gnu Lac0BetterThanLac1 tied17 = tied17_once"
  by (rule std_sort_gnu_17 [OF _ _ median_tied17 partition_tied17])
     (simp_all add: tied17_def tied17_once_def tied_lac_tie)

lemma std_sort_gnu_tied17_once: "std_sort_gnu Lac0BetterThanLac1 tied17_once = tied17_twice"
  by (rule std_sort_gnu_17 [OF _ _ median_tied17_once partition_tied17_once])
     (simp_all add: tied17_once_def tied17_twice_def tied_lac_tie)

lemma tied17_orders_differ: "tied17_once \<noteq> tied17_twice"
  by (simp add: tied17_once_def tied17_twice_def tied_lac_def)

text \<open>
  C6 as stated fails: seventeen tied candidates are retained with \<open>k = 17\<close>, and the second
  application of \<open>SortAndKeepTopKLACs\<close> returns them in another order than the first.
\<close>

theorem SortAndKeepTopKLACs_second_pass_reorders_ties:
  "SortAndKeepTopKLACs std_sort_gnu 17 tied17 = Inr tied17_once
   \<and> SortAndKeepTopKLACs std_sort_gnu 17 tied17_once = Inr tied17_twice
   \<and> tied17_once \<noteq> tied17_twice"
proof -
  have "length tied17_once = 17" "length tied17_twice = 17"
    by (simp_all add: tied17_once_def tied17_twice_def)
  then show ?thesis
    using std_sort_gnu_tied17 std_sort_gnu_tied17_once tied17_orders_differ
    by (simp add: SortAndKeepTopKLACs_def)
qed


section \<open>Networks (my\_abc.h, my\_abc.cc)\<close>

text \<open>
  A logic network in SOP form is ABC's \<open>Abc_Ntk_t\<close>: objects addressed by their stable
  integer ID, each with a type, an ordered fanin list, a fanout list and (for a node) its SOP
  string. The objects are a store with one map per field; \<open>ObjType ntk i = None\<close> is a
  null entry of \<open>vObjs\<close>. \<open>nObjNumMax\<close> is the length of \<open>vObjs\<close>: a new object gets it as
  its ID, and an ID is never used again.
\<close>

datatype Abc_ObjType = ABC_OBJ_PI | ABC_OBJ_PO | ABC_OBJ_NODE

record Abc_Ntk =
  ObjType :: "nat \<Rightarrow> Abc_ObjType option"
  vFanins :: "nat \<Rightarrow> nat list"
  vFanouts :: "nat \<Rightarrow> nat list"
  pData :: "nat \<Rightarrow> string"
  ObjName :: "nat \<Rightarrow> string"
  nObjNumMax :: nat
  vPis :: "nat list"
  vPos :: "nat list"

definition IsObj :: "Abc_Ntk \<Rightarrow> nat \<Rightarrow> bool" where
  "IsObj ntk i \<longleftrightarrow> ObjType ntk i \<noteq> None"

definition IsNode :: "Abc_Ntk \<Rightarrow> nat \<Rightarrow> bool" where
  "IsNode ntk i \<longleftrightarrow> ObjType ntk i = Some ABC_OBJ_NODE"

definition IsObjPi :: "Abc_Ntk \<Rightarrow> nat \<Rightarrow> bool" where
  "IsObjPi ntk i \<longleftrightarrow> ObjType ntk i = Some ABC_OBJ_PI"

definition IsObjPo :: "Abc_Ntk \<Rightarrow> nat \<Rightarrow> bool" where
  "IsObjPo ntk i \<longleftrightarrow> ObjType ntk i = Some ABC_OBJ_PO"

definition GetFaninNum :: "Abc_Ntk \<Rightarrow> nat \<Rightarrow> nat" where
  "GetFaninNum ntk i = length (vFanins ntk i)"

definition GetFanoutNum :: "Abc_Ntk \<Rightarrow> nat \<Rightarrow> nat" where
  "GetFanoutNum ntk i = length (vFanouts ntk i)"

text \<open>
  Modelled from the spec: the constant tests of the Network collaborator (ABC's
  \<open>Abc_NodeIsConst\<close>, \<open>Abc_SopIsConst0\<close>, \<open>Abc_SopIsConst1\<close>, not in the repository's
  files). A node is constant when it has no fanin; its SOP then starts with a blank and the
  constant's digit (the strings \<open>" 0\n"\<close> and \<open>" 1\n"\<close> of the candidates).
\<close>

definition Abc_NodeIsConst :: "Abc_Ntk \<Rightarrow> nat \<Rightarrow> bool" where
  "Abc_NodeIsConst ntk i \<longleftrightarrow> IsNode ntk i \<and> vFanins ntk i = []"

definition Abc_SopIsConst0 :: "string \<Rightarrow> bool" where
  "Abc_SopIsConst0 pSop \<longleftrightarrow> (case pSop of c0 # c1 # _ \<Rightarrow> c0 = CHR '' '' \<and> c1 = CHR ''0'' | _ \<Rightarrow> False)"

definition Abc_SopIsConst1 :: "string \<Rightarrow> bool" where
  "Abc_SopIsConst1 pSop \<longleftrightarrow> (case pSop of c0 # c1 # _ \<Rightarrow> c0 = CHR '' '' \<and> c1 = CHR ''1'' | _ \<Rightarrow> False)"

definition Abc_NodeIsConst0 :: "Abc_Ntk \<Rightarrow> nat \<Rightarrow> bool" where
  "Abc_NodeIsConst0 ntk i \<longleftrightarrow> Abc_NodeIsConst ntk i \<and> Abc_SopIsConst0 (pData ntk i)"

definition Abc_NodeIsConst1 :: "Abc_Ntk \<Rightarrow> nat \<Rightarrow> bool" where
  "Abc_NodeIsConst1 ntk i \<longleftrightarrow> Abc_NodeIsConst ntk i \<and> Abc_SopIsConst1 (pData ntk i)"

definition IsConst :: "Abc_Ntk \<Rightarrow> nat \<Rightarrow> bool" where
  "IsConst ntk i \<longleftrightarrow> IsNode ntk i \<and> Abc_NodeIsConst ntk i"

text \<open>
  Modelled from the spec: creating and deleting objects and adding a fanin in the Network
  collaborator (ABC's \<open>Abc_NtkCreateObj\<close>, \<open>Abc_ObjAddFanin\<close>, \<open>Abc_ObjDeleteFanin\<close>,
  \<open>Abc_NtkDeleteObj\<close>, not in the repository's files). A new object is appended to
  \<open>vObjs\<close>; adding a fanin appends to the fanin list of the object and to the fanout list
  of the fanin; deleting an object first removes it from the fanin lists of its fanouts and
  from the fanout lists of its fanins, then nulls its entry.
\<close>

definition Abc_NtkCreateObj :: "Abc_Ntk \<Rightarrow> Abc_ObjType \<Rightarrow> Abc_Ntk \<times> nat" where
  "Abc_NtkCreateObj ntk ty =
     (let Id = nObjNumMax ntk in
      (ntk\<lparr>ObjType := (ObjType ntk)(Id \<mapsto> ty),
           vFanins := (vFanins ntk)(Id := []),
           vFanouts := (vFanouts ntk)(Id := []),
           pData := (pData ntk)(Id := []),
           ObjName := (ObjName ntk)(Id := []),
           nObjNumMax := Suc Id,
           vPis := (if ty = ABC_OBJ_PI then vPis ntk @ [Id] else vPis ntk),
           vPos := (if ty = ABC_OBJ_PO then vPos ntk @ [Id] else vPos ntk)\<rparr>, Id))"

definition Abc_ObjAddFanin :: "Abc_Ntk \<Rightarrow> nat \<Rightarrow> nat \<Rightarrow> Abc_Ntk" where
  "Abc_ObjAddFanin ntk obj fanin =
     (let ntk1 = ntk\<lparr>vFanins := (vFanins ntk)(obj := vFanins ntk obj @ [fanin])\<rparr>
      in ntk1\<lparr>vFanouts := (vFanouts ntk1)(fanin := vFanouts ntk1 fanin @ [obj])\<rparr>)"

definition Abc_ObjDeleteFanin :: "Abc_Ntk \<Rightarrow> nat \<Rightarrow> nat \<Rightarrow> Abc_Ntk" where
  "Abc_ObjDeleteFanin ntk obj fanin =
     (if fanin \<notin> set (vFanins ntk obj) then ntk
      else let ntk1 = ntk\<lparr>vFanins := (vFanins ntk)(obj := remove1 fanin (vFanins ntk obj))\<rparr>
        in if obj \<notin> set (vFanouts ntk1 fanin) then ntk1
           else ntk1\<lparr>vFanouts := (vFanouts ntk1)(fanin := remove1 obj (vFanouts ntk1 fanin))\<rparr>)"

definition Abc_NtkDeleteObj :: "Abc_Ntk \<Rightarrow> nat \<Rightarrow> Abc_Ntk option" where
  "Abc_NtkDeleteObj ntk obj =
     (if \<not> IsObj ntk obj then None
      else
        let ntk1 = fold (\<lambda>fanout n. Abc_ObjDeleteFanin n fanout obj) (vFanouts ntk obj) ntk;
            ntk2 = fold (\<lambda>fanin n. Abc_ObjDeleteFanin n obj fanin) (vFanins ntk1 obj) ntk1
        in Some (ntk2\<lparr>ObjType := (ObjType ntk2)(obj := None),
                       vPis := removeAll obj (vPis ntk2),
                       vPos := removeAll obj (vPos ntk2)\<rparr>))"

text \<open>\<open>NetMan::DelObj\<close>.\<close>

definition DelObj :: "Abc_Ntk \<Rightarrow> nat \<Rightarrow> Abc_Ntk option" where
  "DelObj ntk obj = Abc_NtkDeleteObj ntk obj"

text \<open>
  \<open>NetMan::CreateNode(faninIds, sop)\<close>: a new node with the given fanins, in order, and the
  SOP. A fanin ID with no object is a null pointer in the source; the model aborts.
\<close>

definition CreateNode :: "Abc_Ntk \<Rightarrow> nat list \<Rightarrow> string \<Rightarrow> (Abc_Ntk \<times> nat) option" where
  "CreateNode ntk faninIds sop_str =
     (if \<exists>faninId\<in>set faninIds. \<not> IsObj ntk faninId then None
      else
        let (ntk1, Id) = Abc_NtkCreateObj ntk ABC_OBJ_NODE;
            ntk2 = fold (\<lambda>faninId n. Abc_ObjAddFanin n Id faninId) faninIds ntk1
        in Some (ntk2\<lparr>pData := (pData ntk2)(Id := sop_str)\<rparr>, Id))"

text \<open>
  \<open>NetMan::GetConstIds\<close> on an SOP network: the first constant-0 node and the first
  constant-1 node in ID order; \<open>None\<close> is the source's \<open>-1\<close>.
\<close>

definition GetConstIds :: "Abc_Ntk \<Rightarrow> nat option \<times> nat option" where
  "GetConstIds ntk =
     foldl (\<lambda>ret i.
        if \<not> IsNode ntk i then ret
        else if Abc_NodeIsConst0 ntk i then (if fst ret = None then (Some i, snd ret) else ret)
        else if Abc_NodeIsConst1 ntk i then (if snd ret = None then (fst ret, Some i) else ret)
        else ret) (None, None) [0..<nObjNumMax ntk]"

definition newline :: char where
  "newline = CHR 0x0A"

definition sop_const0 :: string where
  "sop_const0 = [CHR '' '', CHR ''0'', newline]"

definition sop_const1 :: string where
  "sop_const1 = [CHR '' '', CHR ''1'', newline]"

text \<open>
  \<open>NetMan::CreateConstsIfNotExist\<close>. ABC's \<open>Abc_NtkCreateNodeConst0\<close> and
  \<open>Abc_NtkCreateNodeConst1\<close> create a node without fanins whose SOP is \<open>" 0\n"\<close> or
  \<open>" 1\n"\<close>.
\<close>

definition CreateConstsIfNotExist :: "Abc_Ntk \<Rightarrow> Abc_Ntk \<times> nat \<times> nat" where
  "CreateConstsIfNotExist ntk =
     (let consts = GetConstIds ntk;
          (ntk1, c0) = (case fst consts of
              Some c \<Rightarrow> (ntk, c)
            | None \<Rightarrow> (let (n, Id) = Abc_NtkCreateObj ntk ABC_OBJ_NODE
                       in (n\<lparr>pData := (pData n)(Id := sop_const0), ObjName := (ObjName n)(Id := ''zero'')\<rparr>, Id)));
          (ntk2, c1) = (case snd consts of
              Some c \<Rightarrow> (ntk1, c)
            | None \<Rightarrow> (let (n, Id) = Abc_NtkCreateObj ntk1 ABC_OBJ_NODE
                       in (n\<lparr>pData := (pData n)(Id := sop_const1), ObjName := (ObjName n)(Id := ''one'')\<rparr>, Id)))
      in (ntk2, c0, c1))"


subsection \<open>Temporary replacement and recovery\<close>

text \<open>
  \<open>Vec_IntFindFrom\<close>: the first index at or after \<open>start\<close> that holds \<open>Entry\<close>; the source
  asserts that there is one.
\<close>

definition Vec_IntFindFrom :: "nat list \<Rightarrow> nat \<Rightarrow> nat \<Rightarrow> nat option" where
  "Vec_IntFindFrom p Entry start = find (\<lambda>i. p ! i = Entry) [start..<length p]"

text \<open>
  \<open>Vec_IntRemoveRev\<close> removes the last occurrence. When there is none the source's loop
  ends with index \<open>-1\<close> and then writes before the array; the model aborts there.
\<close>

definition Vec_IntRemoveRev :: "nat list \<Rightarrow> nat \<Rightarrow> nat list option" where
  "Vec_IntRemoveRev p Entry =
     (if Entry \<in> set p then Some (rev (remove1 Entry (rev p))) else None)"

text \<open>
  \<open>NetMan::PatchFanin\<close>: fanin slot \<open>iFanin\<close> of \<open>pObj\<close>, which holds \<open>pFaninOld\<close>, is
  redirected to \<open>pFaninNew\<close>. The three updates happen in place, one after the other.
\<close>

definition PatchFanin :: "Abc_Ntk \<Rightarrow> nat \<Rightarrow> nat \<Rightarrow> nat \<Rightarrow> nat \<Rightarrow> Abc_Ntk option" where
  "PatchFanin ntk pObj iFanin pFaninOld pFaninNew =
     (if \<not> IsObj ntk pObj \<or> \<not> IsObj ntk pFaninOld \<or> \<not> IsObj ntk pFaninNew then None
      else if pFaninOld = pFaninNew then None
      else if \<not> (iFanin < length (vFanins ntk pObj) \<and> vFanins ntk pObj ! iFanin = pFaninOld) then None
      else
        let ntk1 = ntk\<lparr>vFanins := (vFanins ntk)(pObj := (vFanins ntk pObj)[iFanin := pFaninNew])\<rparr>
        in case Vec_IntRemoveRev (vFanouts ntk1 pFaninOld) pObj of
             None \<Rightarrow> None
           | Some fo \<Rightarrow>
               let ntk2 = ntk1\<lparr>vFanouts := (vFanouts ntk1)(pFaninOld := fo)\<rparr>
               in Some (ntk2\<lparr>vFanouts := (vFanouts ntk2)(pFaninNew := vFanouts ntk2 pFaninNew @ [pObj])\<rparr>))"

text \<open>
  Modelled from the spec: ABC's \<open>Abc_ObjPatchFanin\<close> (Network collaborator, not in the
  repository's files), of which \<open>NetMan::PatchFanin\<close> is the variant with an explicit slot.
  It redirects the first fanin slot of \<open>pObj\<close> that holds \<open>pFaninOld\<close>, removes the first
  occurrence of \<open>pObj\<close> from the fanouts of \<open>pFaninOld\<close> and appends \<open>pObj\<close> to the fanouts
  of \<open>pFaninNew\<close>; when \<open>pFaninOld\<close> is not a fanin it prints a message and changes nothing.
\<close>

definition Abc_ObjPatchFanin :: "Abc_Ntk \<Rightarrow> nat \<Rightarrow> nat \<Rightarrow> nat \<Rightarrow> Abc_Ntk option" where
  "Abc_ObjPatchFanin ntk pObj pFaninOld pFaninNew =
     (if \<not> IsObj ntk pObj \<or> \<not> IsObj ntk pFaninOld \<or> \<not> IsObj ntk pFaninNew then None
      else if pFaninOld = pFaninNew then None
      else case Vec_IntFindFrom (vFanins ntk pObj) pFaninOld 0 of
          None \<Rightarrow> Some ntk
        | Some iFanin \<Rightarrow>
            let ntk1 = ntk\<lparr>vFanins := (vFanins ntk)(pObj := (vFanins ntk pObj)[iFanin := pFaninNew])\<rparr>;
                ntk2 = ntk1\<lparr>vFanouts := (vFanouts ntk1)(pFaninOld := remove1 pObj (vFanouts ntk1 pFaninOld))\<rparr>
            in Some (ntk2\<lparr>vFanouts := (vFanouts ntk2)(pFaninNew := vFanouts ntk2 pFaninNew @ [pObj])\<rparr>))"

fun fold_option :: "('a \<Rightarrow> 's \<Rightarrow> 's option) \<Rightarrow> 'a list \<Rightarrow> 's \<Rightarrow> 's option" where
  "fold_option f [] s = Some s"
| "fold_option f (x # xs) s = (case f x s of None \<Rightarrow> None | Some s' \<Rightarrow> fold_option f xs s')"

text \<open>\<open>Abc_ObjTransferFanout_v2\<close>, with its assertions.\<close>

definition Abc_ObjTransferFanout_v2 :: "Abc_Ntk \<Rightarrow> nat list \<Rightarrow> nat \<Rightarrow> nat \<Rightarrow> Abc_Ntk option" where
  "Abc_ObjTransferFanout_v2 ntk pFanouts pNodeFrom pNodeTo =
     (if IsObjPo ntk pNodeFrom \<or> IsObjPo ntk pNodeTo then None
      else if pNodeFrom = pNodeTo then None
      else if IsNode ntk pNodeFrom \<and> GetFanoutNum ntk pNodeFrom = 0 then None
      else
        let nFanoutsOld = GetFanoutNum ntk pNodeTo
        in case fold_option (\<lambda>pFanout n. Abc_ObjPatchFanin n pFanout pNodeFrom pNodeTo) pFanouts ntk of
             None \<Rightarrow> None
           | Some ntk' \<Rightarrow>
               if GetFanoutNum ntk' pNodeTo = nFanoutsOld + length pFanouts then Some ntk' else None)"

lemma find_upt_Some:
  "find P [s..<n] = Some k \<longleftrightarrow> s \<le> k \<and> k < n \<and> P k \<and> (\<forall>j. s \<le> j \<and> j < k \<longrightarrow> \<not> P j)"
proof
  assume "find P [s..<n] = Some k"
  then obtain i where i: "i < length [s..<n]" "P ([s..<n] ! i)" "k = [s..<n] ! i"
    "\<forall>j<i. \<not> P ([s..<n] ! j)"
    unfolding find_Some_iff by blast
  have k: "k = s + i" using i(1,3) by simp
  have "\<not> P j" if "s \<le> j" "j < k" for j
  proof -
    have "j - s < i" using that k by simp
    with i(4) have "\<not> P ([s..<n] ! (j - s))" by blast
    moreover have "[s..<n] ! (j - s) = j" using that k i(1) by simp
    ultimately show ?thesis by simp
  qed
  with i k show "s \<le> k \<and> k < n \<and> P k \<and> (\<forall>j. s \<le> j \<and> j < k \<longrightarrow> \<not> P j)" by auto
next
  assume a: "s \<le> k \<and> k < n \<and> P k \<and> (\<forall>j. s \<le> j \<and> j < k \<longrightarrow> \<not> P j)"
  have "k - s < length [s..<n] \<and> P ([s..<n] ! (k - s)) \<and> k = [s..<n] ! (k - s)
      \<and> (\<forall>j<k - s. \<not> P ([s..<n] ! j))"
    using a by auto
  then show "find P [s..<n] = Some k" unfolding find_Some_iff by blast
qed

lemma find_upt_None: "find P [s..<n] = None \<longleftrightarrow> (\<forall>j. s \<le> j \<and> j < n \<longrightarrow> \<not> P j)"
  by (auto simp: find_None_iff)

lemma Vec_IntFindFrom_Some:
  assumes "Vec_IntFindFrom p Entry start = Some i"
  shows "start \<le> i" "i < length p" "p ! i = Entry"
  using assms by (simp_all add: Vec_IntFindFrom_def find_upt_Some)

text \<open>
  The loop of \<open>TempRepl_v2\<close> that records, for each collected fanout, the fanin slot that
  holds the target: the first slot not yet recorded for that fanout (\<open>foIFaninPair\<close>).
\<close>

function next_slot :: "nat list \<Rightarrow> nat \<Rightarrow> (nat \<times> nat) set \<Rightarrow> nat \<Rightarrow> nat \<Rightarrow> nat option" where
  "next_slot fanins tsId foIFaninPair pFanout start =
     (case Vec_IntFindFrom fanins tsId start of
        None \<Rightarrow> None
      | Some iFanin \<Rightarrow>
          if (pFanout, iFanin) \<in> foIFaninPair
          then next_slot fanins tsId foIFaninPair pFanout (Suc iFanin)
          else Some iFanin)"
  by pat_completeness auto
termination
proof (relation "measure (\<lambda>(fanins, tsId, used, pFanout, start). length fanins - start)")
  show "wf (measure (\<lambda>(fanins, tsId, used, pFanout, start). length fanins - start))" by simp
next
  fix fanins :: "nat list" and tsId foIFaninPair pFanout start iFanin
  assume "Vec_IntFindFrom fanins tsId start = Some iFanin"
  then have "start \<le> iFanin" "iFanin < length fanins"
    by (simp_all add: Vec_IntFindFrom_Some)
  then show "((fanins, tsId, foIFaninPair, pFanout, Suc iFanin), (fanins, tsId, foIFaninPair, pFanout, start))
      \<in> measure (\<lambda>(fanins, tsId, used, pFanout, start). length fanins - start)"
    by simp
qed

declare next_slot.simps [simp del]

fun record_pairs :: "Abc_Ntk \<Rightarrow> nat \<Rightarrow> nat list \<Rightarrow> (nat \<times> nat) set \<Rightarrow> (nat \<times> nat) list option" where
  "record_pairs ntk tsId [] foIFaninPair = Some []"
| "record_pairs ntk tsId (pFanout # pFanouts) foIFaninPair =
     (if \<not> IsObj ntk pFanout then None
      else case next_slot (vFanins ntk pFanout) tsId foIFaninPair pFanout 0 of
          None \<Rightarrow> None
        | Some iFanin \<Rightarrow>
            (case record_pairs ntk tsId pFanouts (insert (pFanout, iFanin) foIFaninPair) of
               None \<Rightarrow> None
             | Some pairs \<Rightarrow> Some ((pFanout, iFanin) # pairs)))"

definition trace_of_pairs :: "(nat \<times> nat) list \<Rightarrow> int list" where
  "trace_of_pairs pairs = concat (map (\<lambda>(pFanout, iFanin). [int pFanout, int iFanin]) pairs)"

text \<open>
  \<open>NetMan::TempRepl_v2\<close>: returns the edited network and the replacement trace
  \<open>{pTS, pSS, fanout0, iFanin0, fanout1, iFanin1, ...}\<close>.
\<close>

definition TempRepl_v2 :: "Abc_Ntk \<Rightarrow> nat \<Rightarrow> nat \<Rightarrow> (Abc_Ntk \<times> int list) option" where
  "TempRepl_v2 ntk tsId ssId =
     (if \<not> IsObj ntk tsId \<or> \<not> IsObj ntk ssId then None
      else if tsId = ssId then None
      else if GetFanoutNum ntk tsId = 0 then None
      else
        let pFanouts = filter (\<lambda>pFanout. pFanout \<noteq> ssId) (vFanouts ntk tsId)
        in case record_pairs ntk tsId pFanouts {} of
             None \<Rightarrow> None
           | Some pairs \<Rightarrow>
               (case Abc_ObjTransferFanout_v2 ntk pFanouts tsId ssId of
                  None \<Rightarrow> None
                | Some ntk' \<Rightarrow> Some (ntk', [int tsId, int ssId] @ trace_of_pairs pairs)))"

text \<open>
  \<open>NetMan::Recov_v2\<close>. The trace is \<open>{pTS, pSS, fanout0, iFanin0, ..., -1, delObj0, ...}\<close>;
  an entry that is read as an ID or a slot and is negative is out of range in the source. The
  first two entries are always read as IDs (\<open>GetObj(replTrace[0])\<close>,
  \<open>GetObj(replTrace[1])\<close>).
\<close>

definition Recov_v2 :: "Abc_Ntk \<Rightarrow> int list \<Rightarrow> Abc_Ntk option" where
  "Recov_v2 ntk replTrace =
     (if \<not> length replTrace > 2 then None
      else
        let patchFaninEnd = length (takeWhile (\<lambda>x. x \<noteq> - 1) replTrace)
        in if odd patchFaninEnd then None
           else if replTrace ! 0 < 0 \<or> replTrace ! 1 < 0 then None
           else if \<exists>x\<in>set (take patchFaninEnd replTrace). x < 0 then None
           else if \<exists>x\<in>set (drop (Suc patchFaninEnd) replTrace). x < 0 then None
           else
             let pTS = nat (replTrace ! 0); pSS = nat (replTrace ! 1)
             in case fold_option
                  (\<lambda>i n. PatchFanin n (nat (replTrace ! (i * 2))) (nat (replTrace ! (i * 2 + 1))) pSS pTS)
                  [1..<patchFaninEnd div 2] ntk of
                  None \<Rightarrow> None
                | Some ntk1 \<Rightarrow>
                    fold_option (\<lambda>x n. DelObj n (nat x)) (drop (Suc patchFaninEnd) replTrace) ntk1)"

text \<open>\<open>LAC::IsConst0\<close>, \<open>LAC::IsConst1\<close>, \<open>LAC::IsConst\<close>.\<close>

definition LAC_IsConst0 :: "LAC \<Rightarrow> bool" where
  "LAC_IsConst0 lac \<longleftrightarrow> divs lac = [] \<and> sop lac = sop_const0"

definition LAC_IsConst1 :: "LAC \<Rightarrow> bool" where
  "LAC_IsConst1 lac \<longleftrightarrow> divs lac = [] \<and> sop lac = sop_const1"

definition LAC_IsConst :: "LAC \<Rightarrow> bool" where
  "LAC_IsConst lac \<longleftrightarrow> divs lac = [] \<and> (sop lac = sop_const0 \<or> sop lac = sop_const1)"

text \<open>\<open>TempApplyLac\<close>: returns the edited network, the trace and the substitute's ID.\<close>

definition TempApplyLac :: "Abc_Ntk \<Rightarrow> LAC \<Rightarrow> (Abc_Ntk \<times> int list \<times> nat) option" where
  "TempApplyLac net lac =
     (if LAC_IsConst lac then
        let (net1, c0, c1) = CreateConstsIfNotExist net;
            ssId = (if LAC_IsConst0 lac then c0 else c1)
        in case TempRepl_v2 net1 (targId lac) ssId of
             None \<Rightarrow> None
           | Some (net2, replTrace) \<Rightarrow> Some (net2, replTrace, ssId)
      else
        case CreateNode net (divs lac) (sop lac) of
          None \<Rightarrow> None
        | Some (net1, ssId) \<Rightarrow>
            (case TempRepl_v2 net1 (targId lac) ssId of
               None \<Rightarrow> None
             | Some (net2, replTrace) \<Rightarrow> Some (net2, replTrace @ [- 1, int ssId], ssId)))"

text \<open>\<open>RecovNet\<close>: the traces are undone from the last to the first.\<close>

definition RecovNet :: "Abc_Ntk \<Rightarrow> int list list \<Rightarrow> Abc_Ntk option" where
  "RecovNet net replTraces = fold_option (\<lambda>replTrace n. Recov_v2 n replTrace) (rev replTraces) net"



subsection \<open>The recorded slots are the slots the transfer redirects\<close>

lemma find_upt_skip:
  assumes "s \<le> t" "\<forall>j. s \<le> j \<and> j < t \<longrightarrow> \<not> P j"
  shows "find P [s..<n] = find P [t..<n]"
proof (cases "find P [t..<n]")
  case None
  then have "\<forall>j. t \<le> j \<and> j < n \<longrightarrow> \<not> P j" by (simp add: find_upt_None)
  with assms have "\<forall>j. s \<le> j \<and> j < n \<longrightarrow> \<not> P j" by (metis not_less)
  then have "find P [s..<n] = None" by (simp add: find_upt_None)
  with None show ?thesis by simp
next
  case (Some k)
  then have k: "t \<le> k" "k < n" "P k" "\<forall>j. t \<le> j \<and> j < k \<longrightarrow> \<not> P j"
    by (simp_all add: find_upt_Some)
  have "\<forall>j. s \<le> j \<and> j < k \<longrightarrow> \<not> P j" using assms(2) k(4) by (metis not_less)
  with k assms(1) have "find P [s..<n] = Some k" by (simp add: find_upt_Some)
  with Some show ?thesis by simp
qed

lemma next_slot_find:
  "next_slot fanins tsId used pFanout start
     = find (\<lambda>i. fanins ! i = tsId \<and> (pFanout, i) \<notin> used) [start..<length fanins]"
proof (induction fanins tsId used pFanout start rule: next_slot.induct)
  case (1 fanins tsId used pFanout start)
  show ?case
  proof (cases "Vec_IntFindFrom fanins tsId start")
    case None
    then have "\<forall>j. start \<le> j \<and> j < length fanins \<longrightarrow> fanins ! j \<noteq> tsId"
      by (simp add: Vec_IntFindFrom_def find_upt_None)
    then have "find (\<lambda>i. fanins ! i = tsId \<and> (pFanout, i) \<notin> used) [start..<length fanins] = None"
      by (simp add: find_upt_None)
    with None show ?thesis by (subst next_slot.simps) simp
  next
    case (Some i)
    then have i: "start \<le> i" "i < length fanins" "fanins ! i = tsId"
      "\<forall>j. start \<le> j \<and> j < i \<longrightarrow> fanins ! j \<noteq> tsId"
      by (simp_all add: Vec_IntFindFrom_def find_upt_Some)
    show ?thesis
    proof (cases "(pFanout, i) \<in> used")
      case True
      have "find (\<lambda>i. fanins ! i = tsId \<and> (pFanout, i) \<notin> used) [start..<length fanins]
          = find (\<lambda>i. fanins ! i = tsId \<and> (pFanout, i) \<notin> used) [Suc i..<length fanins]"
      proof (rule find_upt_skip)
        show "start \<le> Suc i" using i(1) by simp
        show "\<forall>j. start \<le> j \<and> j < Suc i \<longrightarrow> \<not> (fanins ! j = tsId \<and> (pFanout, j) \<notin> used)"
          using i(4) True by (metis less_Suc_eq)
      qed
      with "1.IH" [OF Some True] Some True show ?thesis
        by (subst next_slot.simps) simp
    next
      case False
      have "find (\<lambda>i. fanins ! i = tsId \<and> (pFanout, i) \<notin> used) [start..<length fanins] = Some i"
        using i False by (simp add: find_upt_Some)
      with Some False show ?thesis by (subst next_slot.simps) simp
    qed
  qed
qed

lemma next_slot_Some:
  "next_slot fanins tsId used pFanout 0 = Some k \<longleftrightarrow>
     k < length fanins \<and> fanins ! k = tsId \<and> (pFanout, k) \<notin> used \<and>
     (\<forall>j<k. \<not> (fanins ! j = tsId \<and> (pFanout, j) \<notin> used))"
  by (auto simp: next_slot_find find_upt_Some)

text \<open>
  \<open>redirect xs S v\<close> is the fanin list \<open>xs\<close> with the slots in \<open>S\<close> set to \<open>v\<close>: what the
  transfer of fanouts makes of a fanin list.
\<close>

definition redirect :: "nat list \<Rightarrow> nat set \<Rightarrow> nat \<Rightarrow> nat list" where
  "redirect xs S v = map (\<lambda>i. if i \<in> S then v else xs ! i) [0..<length xs]"

lemma length_redirect [simp]: "length (redirect xs S v) = length xs"
  by (simp add: redirect_def)

lemma nth_redirect [simp]: "i < length xs \<Longrightarrow> redirect xs S v ! i = (if i \<in> S then v else xs ! i)"
  by (simp add: redirect_def)

lemma redirect_empty [simp]: "redirect xs {} v = xs"
  by (simp add: list_eq_iff_nth_eq)

lemma redirect_insert:
  "k < length xs \<Longrightarrow> (redirect xs S v)[k := v] = redirect xs (insert k S) v"
  by (simp add: list_eq_iff_nth_eq nth_list_update)

lemma find_redirect:
  assumes "ss \<noteq> ts"
  shows "Vec_IntFindFrom (redirect xs {i. (f, i) \<in> used} ss) ts 0 = next_slot xs ts used f 0"
proof -
  have "find (\<lambda>i. redirect xs {i. (f, i) \<in> used} ss ! i = ts) [0..<length xs]
      = find (\<lambda>i. xs ! i = ts \<and> (f, i) \<notin> used) [0..<length xs]"
    using assms by (intro find_cong) auto
  then show ?thesis by (simp add: Vec_IntFindFrom_def next_slot_find)
qed


text \<open>\<open>frame n m\<close>: \<open>m\<close> differs from \<open>n\<close> in fanin and fanout lists only.\<close>

definition frame :: "Abc_Ntk \<Rightarrow> Abc_Ntk \<Rightarrow> bool" where
  "frame n m \<longleftrightarrow> ObjType m = ObjType n \<and> pData m = pData n \<and> ObjName m = ObjName n \<and>
     nObjNumMax m = nObjNumMax n \<and> vPis m = vPis n \<and> vPos m = vPos n"

lemma frame_refl [simp]: "frame n n"
  by (simp add: frame_def)

lemma frame_IsObj: "frame n m \<Longrightarrow> IsObj m = IsObj n"
  by (auto simp: frame_def IsObj_def fun_eq_iff)

text \<open>
  The state of the transfer loop after the fanouts \<open>moved\<close> have been patched: the slots
  \<open>U\<close> hold the substitute, the moved fanouts have left the target's fanout list and stand at
  the end of the substitute's.
\<close>

definition redirected ::
  "Abc_Ntk \<Rightarrow> nat \<Rightarrow> nat \<Rightarrow> (nat \<times> nat) set \<Rightarrow> nat list \<Rightarrow> Abc_Ntk \<Rightarrow> bool" where
  "redirected n ts ss U moved m \<longleftrightarrow>
     frame n m \<and>
     (\<forall>f. vFanins m f = redirect (vFanins n f) {i. (f, i) \<in> U} ss) \<and>
     (\<forall>x. x \<noteq> ts \<and> x \<noteq> ss \<longrightarrow> vFanouts m x = vFanouts n x) \<and>
     mset (vFanouts m ts) = mset (vFanouts n ts) - mset moved \<and>
     vFanouts m ss = vFanouts n ss @ moved"

lemma redirected_start: "redirected n ts ss {} [] n"
  by (simp add: redirected_def)

lemma Abc_ObjPatchFanin_step:
  assumes "ts \<noteq> ss" "IsObj m f" "IsObj m ts" "IsObj m ss"
    and "Vec_IntFindFrom (vFanins m f) ts 0 = Some i"
  shows "\<exists>m'. Abc_ObjPatchFanin m f ts ss = Some m' \<and> frame m m' \<and>
      vFanins m' = (vFanins m)(f := (vFanins m f)[i := ss]) \<and>
      vFanouts m' = (vFanouts m)(ts := remove1 f (vFanouts m ts), ss := vFanouts m ss @ [f])"
  using assms by (simp add: Abc_ObjPatchFanin_def Let_def frame_def)

lemma transfer_fold:
  assumes neq: "ts \<noteq> ss" and ots: "IsObj n ts" and oss: "IsObj n ss"
  shows "redirected n ts ss U moved m \<Longrightarrow> record_pairs n ts fs U = Some pairs \<Longrightarrow>
     \<exists>m'. fold_option (\<lambda>pFanout k. Abc_ObjPatchFanin k pFanout ts ss) fs m = Some m' \<and>
        redirected n ts ss (U \<union> set pairs) (moved @ fs) m' \<and> map fst pairs = fs \<and>
        (\<forall>(f, i)\<in>set pairs. IsObj n f \<and> i < length (vFanins n f) \<and> vFanins n f ! i = ts \<and> (f, i) \<notin> U) \<and>
        distinct pairs"
proof (induction fs arbitrary: U moved m pairs)
  case Nil
  then show ?case by simp
next
  case (Cons f fs)
  from Cons.prems(2) have of: "IsObj n f"
    by (simp split: if_splits)
  with Cons.prems(2) obtain i where ns: "next_slot (vFanins n f) ts U f 0 = Some i"
    by (cases "next_slot (vFanins n f) ts U f 0") simp_all
  with Cons.prems(2) of obtain pairs' where
    rp: "record_pairs n ts fs (insert (f, i) U) = Some pairs'"
    by (cases "record_pairs n ts fs (insert (f, i) U)") simp_all
  with Cons.prems(2) of ns have pairs: "pairs = (f, i) # pairs'" by simp
  from ns have i: "i < length (vFanins n f)" "vFanins n f ! i = ts" "(f, i) \<notin> U"
    by (simp_all add: next_slot_Some)
  from Cons.prems(1) have fr: "frame n m"
    and fi: "\<And>g. vFanins m g = redirect (vFanins n g) {i. (g, i) \<in> U} ss"
    and fo: "\<And>x. x \<noteq> ts \<Longrightarrow> x \<noteq> ss \<Longrightarrow> vFanouts m x = vFanouts n x"
    and fts: "mset (vFanouts m ts) = mset (vFanouts n ts) - mset moved"
    and fss: "vFanouts m ss = vFanouts n ss @ moved"
    by (simp_all add: redirected_def)
  have om: "IsObj m f" "IsObj m ts" "IsObj m ss"
    using fr of ots oss by (simp_all add: frame_IsObj)
  have "Vec_IntFindFrom (vFanins m f) ts 0 = Some i"
    using find_redirect [OF neq [symmetric], of "vFanins n f" f U] ns fi by simp
  from Abc_ObjPatchFanin_step [OF neq om this] obtain m1 where
    p1: "Abc_ObjPatchFanin m f ts ss = Some m1" and fr1: "frame m m1"
    and fi1: "vFanins m1 = (vFanins m)(f := (vFanins m f)[i := ss])"
    and fo1: "vFanouts m1 = (vFanouts m)(ts := remove1 f (vFanouts m ts), ss := vFanouts m ss @ [f])"
    by blast
  have red1: "redirected n ts ss (insert (f, i) U) (moved @ [f]) m1"
    unfolding redirected_def
  proof (intro conjI allI impI)
    show "frame n m1" using fr fr1 by (simp add: frame_def)
    fix g
    show "vFanins m1 g = redirect (vFanins n g) {j. (g, j) \<in> insert (f, i) U} ss"
    proof (cases "g = f")
      case True
      have "{j. (f, j) \<in> insert (f, i) U} = insert i {j. (f, j) \<in> U}" by auto
      with True i(1) show ?thesis by (simp add: fi1 fi redirect_insert)
    next
      case False
      then have "{j. (g, j) \<in> insert (f, i) U} = {j. (g, j) \<in> U}" by auto
      with False show ?thesis by (simp add: fi1 fi)
    qed
  next
    fix x assume "x \<noteq> ts \<and> x \<noteq> ss"
    then show "vFanouts m1 x = vFanouts n x" by (simp add: fo1 fo)
  next
    show "mset (vFanouts m1 ts) = mset (vFanouts n ts) - mset (moved @ [f])"
      using neq by (simp add: fo1 fts)
    show "vFanouts m1 ss = vFanouts n ss @ moved @ [f]"
      using neq by (simp add: fo1 fss)
  qed
  from Cons.IH [OF red1 rp] obtain m' where
    fold: "fold_option (\<lambda>pFanout k. Abc_ObjPatchFanin k pFanout ts ss) fs m1 = Some m'"
    and red': "redirected n ts ss (insert (f, i) U \<union> set pairs') ((moved @ [f]) @ fs) m'"
    and fst': "map fst pairs' = fs"
    and props': "\<forall>(g, j)\<in>set pairs'. IsObj n g \<and> j < length (vFanins n g) \<and> vFanins n g ! j = ts \<and> (g, j) \<notin> insert (f, i) U"
    and dist': "distinct pairs'"
    by blast
  have c1: "fold_option (\<lambda>pFanout k. Abc_ObjPatchFanin k pFanout ts ss) (f # fs) m = Some m'"
    using p1 fold by simp
  have c2: "redirected n ts ss (U \<union> set pairs) (moved @ f # fs) m'"
  proof -
    have "insert (f, i) U \<union> set pairs' = U \<union> set pairs" using pairs by auto
    moreover have "(moved @ [f]) @ fs = moved @ f # fs" by simp
    ultimately show ?thesis using red' by metis
  qed
  have c3: "map fst pairs = f # fs" using pairs fst' by simp
  have c4: "\<forall>(g, j)\<in>set pairs. IsObj n g \<and> j < length (vFanins n g) \<and> vFanins n g ! j = ts \<and> (g, j) \<notin> U"
    using props' pairs of i by auto
  have c5: "distinct pairs" using props' dist' pairs by auto
  show ?case
    by (rule exI [of _ m']) (intro conjI c1 c2 c3 c4 c5)
qed


lemma redirect_update:
  "k < length xs \<Longrightarrow> redirect (xs[k := v]) S v = redirect xs (insert k S) v"
  by (simp add: list_eq_iff_nth_eq nth_list_update)

lemma mset_remove_last: "mset (rev (remove1 x (rev xs))) = mset xs - {#x#}"
  by simp

lemma PatchFanin_step:
  assumes "ts \<noteq> ss" "IsObj m f" "IsObj m ts" "IsObj m ss"
    and "i < length (vFanins m f)" "vFanins m f ! i = ss" "f \<in> set (vFanouts m ss)"
  shows "\<exists>m'. PatchFanin m f i ss ts = Some m' \<and> frame m m' \<and>
      vFanins m' = (vFanins m)(f := (vFanins m f)[i := ts]) \<and>
      vFanouts m' = (vFanouts m)(ss := rev (remove1 f (rev (vFanouts m ss))), ts := vFanouts m ts @ [f])"
  using assms by (simp add: PatchFanin_def Vec_IntRemoveRev_def Let_def frame_def)

lemma patch_back_fold:
  assumes neq: "ts \<noteq> ss"
  shows "IsObj m ts \<Longrightarrow> IsObj m ss \<Longrightarrow> distinct ps \<Longrightarrow>
    (\<forall>(f, i)\<in>set ps. IsObj m f \<and> i < length (vFanins m f) \<and> vFanins m f ! i = ss) \<Longrightarrow>
    mset (map fst ps) \<subseteq># mset (vFanouts m ss) \<Longrightarrow>
    \<exists>m'. fold_option (\<lambda>(f, i) k. PatchFanin k f i ss ts) ps m = Some m' \<and> frame m m' \<and>
      (\<forall>f. vFanins m' f = redirect (vFanins m f) {i. (f, i) \<in> set ps} ts) \<and>
      (\<forall>x. x \<noteq> ts \<and> x \<noteq> ss \<longrightarrow> vFanouts m' x = vFanouts m x) \<and>
      mset (vFanouts m' ss) = mset (vFanouts m ss) - mset (map fst ps) \<and>
      mset (vFanouts m' ts) = mset (vFanouts m ts) + mset (map fst ps)"
proof (induction ps arbitrary: m)
  case Nil
  show ?case by (rule exI [of _ m]) simp
next
  case (Cons p ps)
  obtain f i where p: "p = (f, i)" by (cases p)
  from Cons.prems(4) p have slot: "IsObj m f" "i < length (vFanins m f)" "vFanins m f ! i = ss"
    by simp_all
  from Cons.prems(5) p have sub: "add_mset f (mset (map fst ps)) \<subseteq># mset (vFanouts m ss)"
    by simp
  then have fin: "f \<in> set (vFanouts m ss)"
    by (metis insert_subset_eq_iff set_mset_mset)
  from PatchFanin_step [OF neq slot(1) Cons.prems(1,2) slot(2,3) fin] obtain m1 where
    p1: "PatchFanin m f i ss ts = Some m1" and fr1: "frame m m1"
    and fi1: "vFanins m1 = (vFanins m)(f := (vFanins m f)[i := ts])"
    and fo1: "vFanouts m1 = (vFanouts m)(ss := rev (remove1 f (rev (vFanouts m ss))), ts := vFanouts m ts @ [f])"
    by blast
  have o1: "IsObj m1 ts" "IsObj m1 ss" using fr1 Cons.prems(1,2) by (simp_all add: frame_IsObj)
  have d1: "distinct ps" and notin: "(f, i) \<notin> set ps" using Cons.prems(3) p by simp_all
  have slots1: "\<forall>(g, j)\<in>set ps. IsObj m1 g \<and> j < length (vFanins m1 g) \<and> vFanins m1 g ! j = ss"
  proof (clarify)
    fix g j assume gj: "(g, j) \<in> set ps"
    with Cons.prems(4) have a: "IsObj m g" "j < length (vFanins m g)" "vFanins m g ! j = ss"
      by auto
    have "g = f \<Longrightarrow> j \<noteq> i" using gj notin by auto
    with a show "IsObj m1 g \<and> j < length (vFanins m1 g) \<and> vFanins m1 g ! j = ss"
      using fr1 by (auto simp: frame_IsObj fi1)
  qed
  have sub1: "mset (map fst ps) \<subseteq># mset (vFanouts m1 ss)"
  proof -
    have "mset (vFanouts m1 ss) = mset (vFanouts m ss) - {#f#}"
      using neq by (simp add: fo1)
    with sub show ?thesis
      by (metis add_mset_remove_trivial subset_mset.diff_add_assoc2 add_mset_add_single
          mset_subset_eq_add_mset_cancel insert_DiffM insert_subset_eq_iff)
  qed
  from Cons.IH [OF o1 d1 slots1 sub1] obtain m' where
    fold: "fold_option (\<lambda>(f, i) k. PatchFanin k f i ss ts) ps m1 = Some m'"
    and fr': "frame m1 m'"
    and fi': "\<And>g. vFanins m' g = redirect (vFanins m1 g) {j. (g, j) \<in> set ps} ts"
    and fo': "\<And>x. x \<noteq> ts \<Longrightarrow> x \<noteq> ss \<Longrightarrow> vFanouts m' x = vFanouts m1 x"
    and fss': "mset (vFanouts m' ss) = mset (vFanouts m1 ss) - mset (map fst ps)"
    and fts': "mset (vFanouts m' ts) = mset (vFanouts m1 ts) + mset (map fst ps)"
    by blast
  have c1: "fold_option (\<lambda>(f, i) k. PatchFanin k f i ss ts) (p # ps) m = Some m'"
    using p p1 fold by simp
  have c2: "frame m m'" using fr1 fr' by (simp add: frame_def)
  have c3: "\<forall>g. vFanins m' g = redirect (vFanins m g) {j. (g, j) \<in> set (p # ps)} ts"
  proof
    fix g
    show "vFanins m' g = redirect (vFanins m g) {j. (g, j) \<in> set (p # ps)} ts"
    proof (cases "g = f")
      case True
      have "{j. (f, j) \<in> set (p # ps)} = insert i {j. (f, j) \<in> set ps}" using p by auto
      with True slot(2) show ?thesis by (simp add: fi' fi1 redirect_update)
    next
      case False
      then have "{j. (g, j) \<in> set (p # ps)} = {j. (g, j) \<in> set ps}" using p by auto
      with False show ?thesis by (simp add: fi' fi1)
    qed
  qed
  have c4: "\<forall>x. x \<noteq> ts \<and> x \<noteq> ss \<longrightarrow> vFanouts m' x = vFanouts m x"
    by (simp add: fo' fo1)
  have c5: "mset (vFanouts m' ss) = mset (vFanouts m ss) - mset (map fst (p # ps))"
    using neq p by (simp add: fss' fo1)
  have c6: "mset (vFanouts m' ts) = mset (vFanouts m ts) + mset (map fst (p # ps))"
    using neq p by (simp add: fts' fo1)
  show ?case
    by (rule exI [of _ m']) (intro conjI c1 c2 c3 c4 c5 c6)
qed


subsection \<open>Rollback\<close>

text \<open>
  \<open>restores n n'\<close>: every object of \<open>n\<close> is in \<open>n'\<close> under the same ID with the same type,
  the same fanin list in the same order, the same SOP and the same fanouts up to their
  order; the primary inputs and outputs are the same; and an ID that has no object in \<open>n\<close>
  either has none in \<open>n'\<close> or holds a constant node without fanouts (one that
  \<open>CreateConstsIfNotExist\<close> created).
\<close>

definition restores :: "Abc_Ntk \<Rightarrow> Abc_Ntk \<Rightarrow> bool" where
  "restores n n' \<longleftrightarrow> vPis n' = vPis n \<and> vPos n' = vPos n \<and>
     (\<forall>i. (IsObj n i \<longrightarrow> ObjType n' i = ObjType n i \<and> vFanins n' i = vFanins n i \<and>
               pData n' i = pData n i \<and> mset (vFanouts n' i) = mset (vFanouts n i)) \<and>
          (\<not> IsObj n i \<longrightarrow> \<not> IsObj n' i \<or>
               (Abc_NodeIsConst n' i \<and> vFanouts n' i = [] \<and>
                (pData n' i = sop_const0 \<or> pData n' i = sop_const1))))"

lemma restores_refl: "restores n n"
  by (simp add: restores_def)

lemma restores_trans:
  assumes "restores a b" "restores b c"
  shows "restores a c"
  unfolding restores_def
proof (intro conjI allI impI)
  show "vPis c = vPis a" "vPos c = vPos a" using assms by (simp_all add: restores_def)
next
  fix i assume i: "IsObj a i"
  with assms(1) have ab: "ObjType b i = ObjType a i" "vFanins b i = vFanins a i"
    "pData b i = pData a i" "mset (vFanouts b i) = mset (vFanouts a i)"
    by (simp_all add: restores_def)
  with i have "IsObj b i" by (simp add: IsObj_def)
  with assms(2) have "ObjType c i = ObjType b i" "vFanins c i = vFanins b i"
    "pData c i = pData b i" "mset (vFanouts c i) = mset (vFanouts b i)"
    by (simp_all add: restores_def)
  with ab show "ObjType c i = ObjType a i" "vFanins c i = vFanins a i"
    "pData c i = pData a i" "mset (vFanouts c i) = mset (vFanouts a i)"
    by simp_all
next
  fix i assume i: "\<not> IsObj a i"
  show "\<not> IsObj c i \<or> (Abc_NodeIsConst c i \<and> vFanouts c i = [] \<and>
                (pData c i = sop_const0 \<or> pData c i = sop_const1))"
  proof (cases "IsObj b i")
    case False
    with assms(2) show ?thesis by (simp add: restores_def)
  next
    case True
    with i assms(1) have b: "Abc_NodeIsConst b i" "vFanouts b i = []"
      "pData b i = sop_const0 \<or> pData b i = sop_const1"
      by (auto simp: restores_def)
    from True assms(2) have "ObjType c i = ObjType b i" "vFanins c i = vFanins b i"
      "pData c i = pData b i" "mset (vFanouts c i) = mset (vFanouts b i)"
      by (simp_all add: restores_def)
    with b show ?thesis by (simp add: Abc_NodeIsConst_def IsNode_def)
  qed
qed

lemma TempRepl_v2_redirected:
  assumes "TempRepl_v2 n ts ss = Some (n1, t)"
  shows "\<exists>ps. t = [int ts, int ss] @ trace_of_pairs ps \<and>
      redirected n ts ss (set ps) (map fst ps) n1 \<and>
      map fst ps = filter (\<lambda>f. f \<noteq> ss) (vFanouts n ts) \<and>
      (\<forall>(f, i)\<in>set ps. IsObj n f \<and> i < length (vFanins n f) \<and> vFanins n f ! i = ts) \<and>
      distinct ps \<and> ts \<noteq> ss \<and> IsObj n ts \<and> IsObj n ss"
proof -
  define fs where "fs = filter (\<lambda>f. f \<noteq> ss) (vFanouts n ts)"
  from assms have ots: "IsObj n ts" and oss: "IsObj n ss" and neq: "ts \<noteq> ss"
    by (auto simp: TempRepl_v2_def split: if_splits)
  from assms ots oss neq obtain ps where rp: "record_pairs n ts fs {} = Some ps"
    by (cases "record_pairs n ts fs {}")
       (auto simp: TempRepl_v2_def Let_def fs_def split: if_splits)
  from assms ots oss neq rp have tr: "Abc_ObjTransferFanout_v2 n fs ts ss = Some n1"
    and t: "t = [int ts, int ss] @ trace_of_pairs ps"
    by (auto simp: TempRepl_v2_def Let_def fs_def [symmetric] split: if_splits option.splits)
  from transfer_fold [OF neq ots oss redirected_start rp] obtain m' where
    fold: "fold_option (\<lambda>pFanout k. Abc_ObjPatchFanin k pFanout ts ss) fs n = Some m'"
    and red: "redirected n ts ss ({} \<union> set ps) ([] @ fs) m'"
    and fst: "map fst ps = fs"
    and props: "\<forall>(f, i)\<in>set ps. IsObj n f \<and> i < length (vFanins n f) \<and> vFanins n f ! i = ts \<and> (f, i) \<notin> {}"
    and dist: "distinct ps"
    by blast
  from tr fold have "n1 = m'"
    by (auto simp: Abc_ObjTransferFanout_v2_def Let_def split: if_splits)
  with red fst have c2: "redirected n ts ss (set ps) (map fst ps) n1" by simp
  have c3: "map fst ps = filter (\<lambda>f. f \<noteq> ss) (vFanouts n ts)" using fst fs_def by simp
  have c4: "\<forall>(f, i)\<in>set ps. IsObj n f \<and> i < length (vFanins n f) \<and> vFanins n f ! i = ts"
    using props by auto
  show ?thesis
    by (rule exI [of _ ps]) (intro conjI t c2 c3 c4 dist neq ots oss)
qed

lemma redirect_back:
  assumes "\<forall>i\<in>S. i < length xs \<longrightarrow> xs ! i = ts"
  shows "redirect (redirect xs S ss) S ts = xs"
  using assms by (auto simp: list_eq_iff_nth_eq)

lemma undo_pairs:
  assumes red: "redirected n ts ss (set ps) (map fst ps) n1"
    and fs: "map fst ps = filter (\<lambda>f. f \<noteq> ss) (vFanouts n ts)"
    and props: "\<forall>(f, i)\<in>set ps. IsObj n f \<and> i < length (vFanins n f) \<and> vFanins n f ! i = ts"
    and dist: "distinct ps" and neq: "ts \<noteq> ss" and ots: "IsObj n ts" and oss: "IsObj n ss"
    and res: "restores n1 m"
  shows "\<exists>m'. fold_option (\<lambda>(f, i) k. PatchFanin k f i ss ts) ps m = Some m' \<and> restores n m'"
proof -
  from red have fr: "frame n n1"
    and fi: "\<And>f. vFanins n1 f = redirect (vFanins n f) {i. (f, i) \<in> set ps} ss"
    and fo: "\<And>x. x \<noteq> ts \<Longrightarrow> x \<noteq> ss \<Longrightarrow> vFanouts n1 x = vFanouts n x"
    and fts: "mset (vFanouts n1 ts) = mset (vFanouts n ts) - mset (map fst ps)"
    and fss: "vFanouts n1 ss = vFanouts n ss @ map fst ps"
    by (simp_all add: redirected_def)
  have obj1: "IsObj n1 = IsObj n" using fr by (rule frame_IsObj)
  have ty1: "ObjType n1 = ObjType n" and pd1: "pData n1 = pData n"
    and pi1: "vPis n1 = vPis n" and po1: "vPos n1 = vPos n"
    using fr by (simp_all add: frame_def)
  from res have rpi: "vPis m = vPis n1" and rpo: "vPos m = vPos n1"
    and robj: "\<And>i. IsObj n1 i \<Longrightarrow> ObjType m i = ObjType n1 i \<and> vFanins m i = vFanins n1 i \<and>
               pData m i = pData n1 i \<and> mset (vFanouts m i) = mset (vFanouts n1 i)"
    and rnon: "\<And>i. \<not> IsObj n1 i \<Longrightarrow> \<not> IsObj m i \<or>
               (Abc_NodeIsConst m i \<and> vFanouts m i = [] \<and>
                (pData m i = sop_const0 \<or> pData m i = sop_const1))"
    by (simp_all add: restores_def)
  have mobj: "IsObj m g" if "IsObj n g" for g
  proof -
    from that have "IsObj n1 g" by (simp add: obj1)
    from robj [OF this] have "ObjType m g = ObjType n g" by (simp add: ty1)
    with that show ?thesis by (simp add: IsObj_def)
  qed
  have slots: "\<forall>(f, i)\<in>set ps. IsObj m f \<and> i < length (vFanins m f) \<and> vFanins m f ! i = ss"
  proof (clarify)
    fix f i assume fi_in: "(f, i) \<in> set ps"
    with props have a: "IsObj n f" "i < length (vFanins n f)" by auto
    then have "vFanins m f = vFanins n1 f" using robj [of f] by (simp add: obj1)
    with a fi_in show "IsObj m f \<and> i < length (vFanins m f) \<and> vFanins m f ! i = ss"
      by (simp add: fi mobj)
  qed
  have sub: "mset (map fst ps) \<subseteq># mset (vFanouts m ss)"
  proof -
    have "mset (vFanouts m ss) = mset (vFanouts n1 ss)" using robj [of ss] oss by (simp add: obj1)
    then show ?thesis by (simp add: fss)
  qed
  from patch_back_fold [OF neq mobj [OF ots] mobj [OF oss] dist slots sub] obtain m' where
    fold: "fold_option (\<lambda>(f, i) k. PatchFanin k f i ss ts) ps m = Some m'"
    and fr': "frame m m'"
    and fi': "\<And>f. vFanins m' f = redirect (vFanins m f) {i. (f, i) \<in> set ps} ts"
    and fo': "\<And>x. x \<noteq> ts \<Longrightarrow> x \<noteq> ss \<Longrightarrow> vFanouts m' x = vFanouts m x"
    and fss': "mset (vFanouts m' ss) = mset (vFanouts m ss) - mset (map fst ps)"
    and fts': "mset (vFanouts m' ts) = mset (vFanouts m ts) + mset (map fst ps)"
    by blast
  have ty': "ObjType m' = ObjType m" and pd': "pData m' = pData m"
    and pi': "vPis m' = vPis m" and po': "vPos m' = vPos m"
    using fr' by (simp_all add: frame_def)
  have Fsub: "mset (map fst ps) \<subseteq># mset (vFanouts n ts)"
    unfolding fs by simp
  have "restores n m'"
    unfolding restores_def
  proof (intro conjI allI impI)
    show "vPis m' = vPis n" by (simp add: pi' rpi pi1)
    show "vPos m' = vPos n" by (simp add: po' rpo po1)
  next
    fix g assume g: "IsObj n g"
    then have g1: "IsObj n1 g" by (simp add: obj1)
    note r = robj [OF g1]
    show "ObjType m' g = ObjType n g" using r by (simp add: ty' ty1)
    show "pData m' g = pData n g" using r by (simp add: pd' pd1)
    have "\<forall>i\<in>{i. (g, i) \<in> set ps}. i < length (vFanins n g) \<longrightarrow> vFanins n g ! i = ts"
      using props by auto
    then show "vFanins m' g = vFanins n g"
      using r by (simp add: fi' fi redirect_back)
    show "mset (vFanouts m' g) = mset (vFanouts n g)"
    proof -
      consider "g = ts" | "g = ss" | "g \<noteq> ts" "g \<noteq> ss" by blast
      then show ?thesis
      proof cases
        case 1
        then show ?thesis using r Fsub by (simp add: fts' fts)
      next
        case 2
        then show ?thesis using r by (simp add: fss' fss)
      next
        case 3
        then show ?thesis using r by (simp add: fo' fo)
      qed
    qed
  next
    fix g assume g: "\<not> IsObj n g"
    then have g1: "\<not> IsObj n1 g" by (simp add: obj1)
    have gts: "g \<noteq> ts" "g \<noteq> ss" using g ots oss by auto
    have "{i. (g, i) \<in> set ps} = {}" using props g by auto
    then have fig: "vFanins m' g = vFanins m g" by (simp add: fi')
    have fog: "vFanouts m' g = vFanouts m g" using gts by (simp add: fo')
    from rnon [OF g1] show "\<not> IsObj m' g \<or>
               (Abc_NodeIsConst m' g \<and> vFanouts m' g = [] \<and>
                (pData m' g = sop_const0 \<or> pData m' g = sop_const1))"
      by (simp add: IsObj_def Abc_NodeIsConst_def IsNode_def ty' pd' fig fog)
  qed
  with fold show ?thesis by blast
qed


lemma length_trace_of_pairs: "length (trace_of_pairs ps) = 2 * length ps"
  by (induction ps) (auto simp: trace_of_pairs_def)

lemma trace_of_pairs_Cons: "trace_of_pairs ((f, i) # ps) = int f # int i # trace_of_pairs ps"
  by (simp add: trace_of_pairs_def)

lemma trace_of_pairs_nonneg: "x \<in> set (trace_of_pairs ps) \<Longrightarrow> 0 \<le> x"
  by (induction ps) (auto simp: trace_of_pairs_def)

lemma nth_trace_of_pairs:
  "k < length ps \<Longrightarrow> trace_of_pairs ps ! (2 * k) = int (fst (ps ! k)) \<and>
     trace_of_pairs ps ! (2 * k + 1) = int (snd (ps ! k))"
proof (induction ps arbitrary: k)
  case Nil
  then show ?case by simp
next
  case (Cons p ps)
  obtain f i where p: "p = (f, i)" by (cases p)
  show ?case
  proof (cases k)
    case 0
    then show ?thesis by (simp add: p trace_of_pairs_Cons)
  next
    case (Suc k')
    with Cons.prems have "k' < length ps" by simp
    from Cons.IH [OF this] show ?thesis by (simp add: p trace_of_pairs_Cons Suc)
  qed
qed

lemma fold_option_map: "fold_option g (map h xs) s = fold_option (\<lambda>x. g (h x)) xs s"
  by (induction xs arbitrary: s) (auto split: option.splits)

lemma pairs_of_trace:
  assumes "t = [int ts, int ss] @ trace_of_pairs ps @ suffix"
  shows "map (\<lambda>i. (nat (t ! (i * 2)), nat (t ! (i * 2 + 1)))) [1..<Suc (length ps)] = ps"
proof (rule nth_equalityI)
  show "length (map (\<lambda>i. (nat (t ! (i * 2)), nat (t ! (i * 2 + 1)))) [1..<Suc (length ps)]) = length ps"
    by (simp del: upt_Suc)
next
  fix k assume "k < length (map (\<lambda>i. (nat (t ! (i * 2)), nat (t ! (i * 2 + 1)))) [1..<Suc (length ps)])"
  then have k: "k < length ps" by (simp del: upt_Suc)
  then have idx: "[1..<Suc (length ps)] ! k = Suc k" by (simp add: nth_upt del: upt_Suc)
  have lt: "2 * k < length (trace_of_pairs ps)" "2 * k + 1 < length (trace_of_pairs ps)"
    using k by (simp_all add: length_trace_of_pairs)
  have a: "t ! (Suc k * 2) = trace_of_pairs ps ! (2 * k)"
    using lt by (simp add: assms nth_append mult.commute)
  have b: "t ! (Suc k * 2 + 1) = trace_of_pairs ps ! (2 * k + 1)"
    using lt by (simp add: assms nth_append mult.commute)
  from nth_trace_of_pairs [OF k] a b k idx
  show "map (\<lambda>i. (nat (t ! (i * 2)), nat (t ! (i * 2 + 1)))) [1..<Suc (length ps)] ! k = ps ! k"
    by (simp add: prod_eq_iff del: upt_Suc)
qed

lemma takeWhile_trace:
  assumes "suffix = [] \<or> hd suffix = - 1"
  shows "takeWhile (\<lambda>x. x \<noteq> - 1) ([int ts, int ss] @ trace_of_pairs ps @ suffix)
       = [int ts, int ss] @ trace_of_pairs ps"
proof -
  have "\<forall>x\<in>set ([int ts, int ss] @ trace_of_pairs ps). x \<noteq> - 1"
    by (auto dest: trace_of_pairs_nonneg)
  then have "takeWhile (\<lambda>x. x \<noteq> - 1) (([int ts, int ss] @ trace_of_pairs ps) @ suffix)
      = ([int ts, int ss] @ trace_of_pairs ps) @ takeWhile (\<lambda>x. x \<noteq> - 1) suffix"
    by (intro takeWhile_append2) blast
  moreover have "takeWhile (\<lambda>x. x \<noteq> - 1) suffix = []"
    using assms by (cases suffix) auto
  ultimately show ?thesis by simp
qed

lemma Recov_v2_trace:
  assumes suffix: "suffix = [] \<or> (\<exists>dels. suffix = - 1 # map int dels)"
    and len: "ps \<noteq> [] \<or> suffix \<noteq> []"
  shows "Recov_v2 m ([int ts, int ss] @ trace_of_pairs ps @ suffix) =
    (case fold_option (\<lambda>(f, i) k. PatchFanin k f i ss ts) ps m of
       None \<Rightarrow> None
     | Some m1 \<Rightarrow> fold_option (\<lambda>x k. DelObj k (nat x)) (drop 1 suffix) m1)"
proof -
  define t where "t = [int ts, int ss] @ trace_of_pairs ps @ suffix"
  have hd: "suffix = [] \<or> hd suffix = - 1" using suffix by auto
  have tw: "takeWhile (\<lambda>x. x \<noteq> - 1) t = [int ts, int ss] @ trace_of_pairs ps"
    unfolding t_def using hd by (rule takeWhile_trace)
  have pfe: "length (takeWhile (\<lambda>x. x \<noteq> - 1) t) = 2 + 2 * length ps"
    by (simp add: tw length_trace_of_pairs)
  have len2: "length t > 2"
    using len by (cases ps; cases suffix) (auto simp: t_def length_trace_of_pairs)
  have tk: "take (2 + 2 * length ps) t = [int ts, int ss] @ trace_of_pairs ps"
    by (simp add: t_def length_trace_of_pairs)
  have nonneg1: "\<not> (\<exists>x\<in>set (take (2 + 2 * length ps) t). x < 0)"
    unfolding tk by (auto dest: trace_of_pairs_nonneg)
  have dr: "drop (Suc (2 + 2 * length ps)) t = drop 1 suffix"
    by (simp add: t_def length_trace_of_pairs)
  have nonneg2: "\<not> (\<exists>x\<in>set (drop 1 suffix). x < 0)"
    using suffix by auto
  have t0: "nat (t ! 0) = ts" "nat (t ! 1) = ss" by (simp_all add: t_def)
  have dv: "(2 + 2 * length ps) div 2 = Suc (length ps)" by simp
  have "fold_option (\<lambda>i n. PatchFanin n (nat (t ! (i * 2))) (nat (t ! (i * 2 + 1))) ss ts)
          [1..<Suc (length ps)] m
      = fold_option (\<lambda>(f, i) k. PatchFanin k f i ss ts)
          (map (\<lambda>i. (nat (t ! (i * 2)), nat (t ! (i * 2 + 1)))) [1..<Suc (length ps)]) m"
    by (simp add: fold_option_map del: upt_Suc)
  also have "\<dots> = fold_option (\<lambda>(f, i) k. PatchFanin k f i ss ts) ps m"
    using pairs_of_trace [OF t_def] by simp
  finally have loop: "fold_option (\<lambda>i n. PatchFanin n (nat (t ! (i * 2))) (nat (t ! (i * 2 + 1))) ss ts)
          [1..<Suc (length ps)] m = fold_option (\<lambda>(f, i) k. PatchFanin k f i ss ts) ps m" .
  have ev: "\<not> odd (2 + 2 * length ps)" by simp
  have ids: "\<not> (t ! 0 < 0 \<or> t ! 1 < 0)" by (simp add: t_def)
  show ?thesis
    unfolding t_def [symmetric] Recov_v2_def Let_def pfe dv dr t0
    by (simp only: len2 nonneg1 nonneg2 ev ids loop if_False not_True_eq_False)
qed


text \<open>
  The IDs of a network are below the length of \<open>vObjs\<close>, so that a new object's ID is
  fresh.
\<close>

definition ids_in_range :: "Abc_Ntk \<Rightarrow> bool" where
  "ids_in_range n \<longleftrightarrow> (\<forall>i. IsObj n i \<longrightarrow> i < nObjNumMax n) \<and>
     (\<forall>i\<in>set (vPis n) \<union> set (vPos n). i < nObjNumMax n)"

lemma create_const:
  assumes rng: "ids_in_range n" and s: "s = sop_const0 \<or> s = sop_const1"
    and k: "k = (let (n', Id) = Abc_NtkCreateObj n ABC_OBJ_NODE
                 in (n'\<lparr>pData := (pData n')(Id := s), ObjName := (ObjName n')(Id := nm)\<rparr>, Id))"
  shows "restores n (fst k)" "ids_in_range (fst k)" "IsObj (fst k) (snd k)"
proof -
  have fresh: "\<not> IsObj n (nObjNumMax n)" using rng by (auto simp: ids_in_range_def)
  show "restores n (fst k)"
    unfolding restores_def k using fresh s
    by (auto simp: Abc_NtkCreateObj_def Let_def IsObj_def Abc_NodeIsConst_def IsNode_def)
  show "ids_in_range (fst k)"
    unfolding k using rng
    by (auto simp: ids_in_range_def Abc_NtkCreateObj_def Let_def IsObj_def less_Suc_eq)
  show "IsObj (fst k) (snd k)"
    unfolding k by (simp add: Abc_NtkCreateObj_def Let_def IsObj_def)
qed

lemma restores_IsObj: "restores n m \<Longrightarrow> IsObj n i \<Longrightarrow> IsObj m i"
  by (simp add: restores_def IsObj_def)

lemma CreateConstsIfNotExist_restores:
  assumes rng: "ids_in_range n" and cc: "CreateConstsIfNotExist n = (nc, c0, c1)"
  shows "restores n nc \<and> ids_in_range nc"
proof -
  define k0 where "k0 = (let (n', Id) = Abc_NtkCreateObj n ABC_OBJ_NODE
       in (n'\<lparr>pData := (pData n')(Id := sop_const0), ObjName := (ObjName n')(Id := ''zero'')\<rparr>, Id))"
  define n1 where "n1 = (case fst (GetConstIds n) of Some c \<Rightarrow> n | None \<Rightarrow> fst k0)"
  have r1: "restores n n1" and g1: "ids_in_range n1"
    using create_const [OF rng _ k0_def] rng
    by (auto simp: n1_def restores_refl split: option.splits)
  define k1 where "k1 = (let (n', Id) = Abc_NtkCreateObj n1 ABC_OBJ_NODE
       in (n'\<lparr>pData := (pData n')(Id := sop_const1), ObjName := (ObjName n')(Id := ''one'')\<rparr>, Id))"
  define n2 where "n2 = (case snd (GetConstIds n) of Some c \<Rightarrow> n1 | None \<Rightarrow> fst k1)"
  have r2: "restores n1 n2" and g2: "ids_in_range n2"
    using create_const [OF g1 _ k1_def] g1
    by (auto simp: n2_def restores_refl split: option.splits)
  have "nc = n2"
    using cc unfolding CreateConstsIfNotExist_def n2_def n1_def k1_def k0_def
    by (auto simp: Let_def split: option.splits prod.splits)
  with r1 r2 g2 show ?thesis by (auto intro: restores_trans)
qed


lemma add_fanins_fold:
  assumes "ss \<notin> set ds"
  shows "frame k (fold (\<lambda>d n. Abc_ObjAddFanin n ss d) ds k) \<and>
     vFanins (fold (\<lambda>d n. Abc_ObjAddFanin n ss d) ds k) = (vFanins k)(ss := vFanins k ss @ ds) \<and>
     vFanouts (fold (\<lambda>d n. Abc_ObjAddFanin n ss d) ds k) ss = vFanouts k ss \<and>
     (\<forall>x. x \<noteq> ss \<longrightarrow> mset (vFanouts (fold (\<lambda>d n. Abc_ObjAddFanin n ss d) ds k) x)
        = mset (vFanouts k x) + replicate_mset (count_list ds x) ss)"
  using assms
proof (induction ds arbitrary: k)
  case Nil
  then show ?case by simp
next
  case (Cons d ds)
  define k1 where "k1 = Abc_ObjAddFanin k ss d"
  have d: "d \<noteq> ss" "ss \<notin> set ds" using Cons.prems by auto
  have k1: "frame k k1" "vFanins k1 = (vFanins k)(ss := vFanins k ss @ [d])"
    "vFanouts k1 = (vFanouts k)(d := vFanouts k d @ [ss])"
    by (simp_all add: k1_def Abc_ObjAddFanin_def Let_def frame_def)
  from Cons.IH [OF d(2), of k1] k1 d show ?case
    by (auto simp: k1_def [symmetric] frame_def)
qed

lemma CreateNode_facts:
  assumes rng: "ids_in_range n" and cn: "CreateNode n ds sp = Some (ns, ss)"
  shows "ss = nObjNumMax n" "\<not> IsObj n ss" "ss \<notin> set ds"
    "ObjType ns = (ObjType n)(ss \<mapsto> ABC_OBJ_NODE)"
    "vFanins ns = (vFanins n)(ss := ds)" "pData ns = (pData n)(ss := sp)"
    "vPis ns = vPis n" "vPos ns = vPos n" "nObjNumMax ns = Suc ss"
    "vFanouts ns ss = []"
    "\<And>x. x \<noteq> ss \<Longrightarrow> mset (vFanouts ns x) = mset (vFanouts n x) + replicate_mset (count_list ds x) ss"
proof -
  from cn have objs: "\<forall>d\<in>set ds. IsObj n d"
    by (auto simp: CreateNode_def split: if_splits)
  from cn objs show ss: "ss = nObjNumMax n"
    by (auto simp: CreateNode_def Abc_NtkCreateObj_def Let_def split: if_splits)
  show fresh: "\<not> IsObj n ss" using rng ss by (auto simp: ids_in_range_def)
  show notin: "ss \<notin> set ds" using objs fresh by auto
  define k where "k = fst (Abc_NtkCreateObj n ABC_OBJ_NODE)"
  have k: "ObjType k = (ObjType n)(ss \<mapsto> ABC_OBJ_NODE)" "vFanins k = (vFanins n)(ss := [])"
    "vFanouts k = (vFanouts n)(ss := [])" "pData k = (pData n)(ss := [])"
    "vPis k = vPis n" "vPos k = vPos n" "nObjNumMax k = Suc ss"
    by (simp_all add: k_def Abc_NtkCreateObj_def Let_def ss)
  define k2 where "k2 = fold (\<lambda>d n. Abc_ObjAddFanin n ss d) ds k"
  have ns: "ns = k2\<lparr>pData := (pData k2)(ss := sp)\<rparr>"
    using cn objs by (auto simp: CreateNode_def Abc_NtkCreateObj_def Let_def k2_def k_def ss split: if_splits)
  note af = add_fanins_fold [OF notin, of k, folded k2_def]
  from af have fr: "frame k k2" by simp
  show "ObjType ns = (ObjType n)(ss \<mapsto> ABC_OBJ_NODE)" using fr k by (simp add: ns frame_def)
  show "vFanins ns = (vFanins n)(ss := ds)" using af k by (simp add: ns)
  show "pData ns = (pData n)(ss := sp)" using fr k by (simp add: ns frame_def)
  show "vPis ns = vPis n" "vPos ns = vPos n" "nObjNumMax ns = Suc ss"
    using fr k by (simp_all add: ns frame_def)
  show "vFanouts ns ss = []" using af k by (simp add: ns)
  show "mset (vFanouts ns x) = mset (vFanouts n x) + replicate_mset (count_list ds x) ss"
    if "x \<noteq> ss" for x
    using af k that by (simp add: ns)
qed

lemma del_fanins_fold:
  assumes "ss \<notin> set ds" "vFanins k ss = ds"
  shows "frame k (fold (\<lambda>d n. Abc_ObjDeleteFanin n ss d) ds k) \<and>
     vFanins (fold (\<lambda>d n. Abc_ObjDeleteFanin n ss d) ds k) = (vFanins k)(ss := []) \<and>
     vFanouts (fold (\<lambda>d n. Abc_ObjDeleteFanin n ss d) ds k) ss = vFanouts k ss \<and>
     (\<forall>x. x \<noteq> ss \<longrightarrow> mset (vFanouts (fold (\<lambda>d n. Abc_ObjDeleteFanin n ss d) ds k) x)
        = mset (vFanouts k x) - replicate_mset (count_list ds x) ss)"
  using assms
proof (induction ds arbitrary: k)
  case Nil
  then have "(vFanins k)(ss := []) = vFanins k" by (auto simp: fun_eq_iff)
  then show ?case by simp
next
  case (Cons d ds)
  define k1 where "k1 = Abc_ObjDeleteFanin k ss d"
  have d: "d \<noteq> ss" "ss \<notin> set ds" using Cons.prems by auto
  have k1: "frame k k1" "vFanins k1 = (vFanins k)(ss := ds)"
    "vFanouts k1 ss = vFanouts k ss"
    "\<And>x. x \<noteq> ss \<Longrightarrow> mset (vFanouts k1 x) = mset (vFanouts k x) - (if x = d then {#ss#} else {#})"
    using Cons.prems(2) d
    by (auto simp: k1_def Abc_ObjDeleteFanin_def Let_def frame_def)
  have "vFanins k1 ss = ds" by (simp add: k1)
  from Cons.IH [OF d(2) this] k1 d show ?case
    by (auto simp: k1_def [symmetric] frame_def)
qed

lemma undo_CreateNode:
  assumes rng: "ids_in_range n" and cn: "CreateNode n ds sp = Some (ns, ss)"
    and res: "restores ns mp"
  shows "\<exists>m'. DelObj mp ss = Some m' \<and> restores n m'"
proof -
  note cf = CreateNode_facts [OF rng cn]
  have oss: "IsObj ns ss" by (simp add: cf(4) IsObj_def)
  from res have rpi: "vPis mp = vPis ns" and rpo: "vPos mp = vPos ns"
    and robj: "\<And>i. IsObj ns i \<Longrightarrow> ObjType mp i = ObjType ns i \<and> vFanins mp i = vFanins ns i \<and>
               pData mp i = pData ns i \<and> mset (vFanouts mp i) = mset (vFanouts ns i)"
    and rnon: "\<And>i. \<not> IsObj ns i \<Longrightarrow> \<not> IsObj mp i \<or>
               (Abc_NodeIsConst mp i \<and> vFanouts mp i = [] \<and>
                (pData mp i = sop_const0 \<or> pData mp i = sop_const1))"
    by (simp_all add: restores_def)
  have mss: "IsObj mp ss" using res oss by (rule restores_IsObj)
  have fo_ss: "vFanouts mp ss = []" using robj [OF oss] cf(10) by simp
  have fi_ss: "vFanins mp ss = ds" using robj [OF oss] cf(5) by simp
  define k where "k = fold (\<lambda>d n. Abc_ObjDeleteFanin n ss d) ds mp"
  note df = del_fanins_fold [OF cf(3) fi_ss, folded k_def]
  from df have fr: "frame mp k" by simp
  define m' where "m' = k\<lparr>ObjType := (ObjType k)(ss := None), vPis := removeAll ss (vPis k),
      vPos := removeAll ss (vPos k)\<rparr>"
  have del: "DelObj mp ss = Some m'"
    using mss by (simp add: DelObj_def Abc_NtkDeleteObj_def Let_def fo_ss fi_ss m'_def k_def)
  have notpi: "ss \<notin> set (vPis n)" "ss \<notin> set (vPos n)"
    using rng cf(1) by (auto simp: ids_in_range_def)
  have "restores n m'"
    unfolding restores_def
  proof (intro conjI allI impI)
    show "vPis m' = vPis n" using fr notpi by (simp add: m'_def frame_def rpi cf)
    show "vPos m' = vPos n" using fr notpi by (simp add: m'_def frame_def rpo cf)
  next
    fix g assume g: "IsObj n g"
    then have gss: "g \<noteq> ss" using cf(2) by auto
    with g have gs: "IsObj ns g" by (simp add: cf(4) IsObj_def)
    note r = robj [OF gs]
    show "ObjType m' g = ObjType n g" using r gss fr by (simp add: m'_def frame_def cf(4))
    show "vFanins m' g = vFanins n g" using r gss df by (simp add: m'_def cf(5))
    show "pData m' g = pData n g" using r gss fr by (simp add: m'_def frame_def cf(6))
    show "mset (vFanouts m' g) = mset (vFanouts n g)"
      using r gss df cf(11) [OF gss] by (simp add: m'_def)
  next
    fix g assume g: "\<not> IsObj n g"
    show "\<not> IsObj m' g \<or> (Abc_NodeIsConst m' g \<and> vFanouts m' g = [] \<and>
                (pData m' g = sop_const0 \<or> pData m' g = sop_const1))"
    proof (cases "g = ss")
      case True
      then show ?thesis by (simp add: m'_def IsObj_def)
    next
      case False
      with g have "\<not> IsObj ns g" by (simp add: cf(4) IsObj_def)
      from rnon [OF this] show ?thesis
      proof
        assume "\<not> IsObj mp g"
        then show ?thesis using fr by (simp add: m'_def IsObj_def frame_def)
      next
        assume a: "Abc_NodeIsConst mp g \<and> vFanouts mp g = [] \<and>
                (pData mp g = sop_const0 \<or> pData mp g = sop_const1)"
        have "mset (vFanouts k g) = {#}" using df False a by simp
        then have "vFanouts m' g = []" by (simp add: m'_def)
        moreover have "Abc_NodeIsConst m' g"
          using a fr df False by (simp add: m'_def Abc_NodeIsConst_def IsNode_def frame_def)
        moreover have "pData m' g = pData mp g" using fr by (simp add: m'_def frame_def)
        ultimately show ?thesis using a by simp
      qed
    qed
  qed
  with del show ?thesis by blast
qed


text \<open>
  A sequence of temporary edits, each by \<open>TempApplyLac\<close> or by \<open>TempRepl_v2\<close> itself,
  applied one after the other; the traces are collected in application order.
\<close>

datatype temp_edit = ByTempApplyLac LAC | ByTempRepl_v2 nat nat

definition apply_edit :: "Abc_Ntk \<Rightarrow> temp_edit \<Rightarrow> (Abc_Ntk \<times> int list) option" where
  "apply_edit net e =
     (case e of
        ByTempApplyLac lac \<Rightarrow>
          (case TempApplyLac net lac of None \<Rightarrow> None | Some (net1, replTrace, ssId) \<Rightarrow> Some (net1, replTrace))
      | ByTempRepl_v2 tsId ssId \<Rightarrow> TempRepl_v2 net tsId ssId)"

fun apply_edits :: "Abc_Ntk \<Rightarrow> temp_edit list \<Rightarrow> (Abc_Ntk \<times> int list list) option" where
  "apply_edits net [] = Some (net, [])"
| "apply_edits net (e # es) =
     (case apply_edit net e of
        None \<Rightarrow> None
      | Some (net1, replTrace) \<Rightarrow>
          (case apply_edits net1 es of
             None \<Rightarrow> None
           | Some (net2, replTraces) \<Rightarrow> Some (net2, replTrace # replTraces)))"

lemma frame_ids_in_range: "frame n m \<Longrightarrow> ids_in_range n \<Longrightarrow> ids_in_range m"
  by (simp add: ids_in_range_def frame_def IsObj_def)

lemma undo_TempRepl_v2:
  assumes tr: "TempRepl_v2 n ts ss = Some (n1, t)" and len: "2 < length t" and res: "restores n1 m"
  shows "\<exists>m'. Recov_v2 m t = Some m' \<and> restores n m'"
proof -
  from TempRepl_v2_redirected [OF tr] obtain ps where
    t: "t = [int ts, int ss] @ trace_of_pairs ps"
    and red: "redirected n ts ss (set ps) (map fst ps) n1"
    and fs: "map fst ps = filter (\<lambda>f. f \<noteq> ss) (vFanouts n ts)"
    and props: "\<forall>(f, i)\<in>set ps. IsObj n f \<and> i < length (vFanins n f) \<and> vFanins n f ! i = ts"
    and dist: "distinct ps" and neq: "ts \<noteq> ss" and ots: "IsObj n ts" and oss: "IsObj n ss"
    by blast
  from len t have ne: "ps \<noteq> []" by (auto simp: trace_of_pairs_def)
  from undo_pairs [OF red fs props dist neq ots oss res] obtain m' where
    fold: "fold_option (\<lambda>(f, i) k. PatchFanin k f i ss ts) ps m = Some m'" and r: "restores n m'"
    by blast
  have "Recov_v2 m ([int ts, int ss] @ trace_of_pairs ps @ []) = Some m'"
    using ne by (subst Recov_v2_trace) (simp_all add: fold)
  with t r show ?thesis by simp
qed

lemma TempRepl_v2_ids_in_range:
  assumes "TempRepl_v2 n ts ss = Some (n1, t)" "ids_in_range n"
  shows "ids_in_range n1"
proof -
  from TempRepl_v2_redirected [OF assms(1)] have "frame n n1"
    by (auto simp: redirected_def)
  then show ?thesis using assms(2) by (rule frame_ids_in_range)
qed

lemma undo_TempApplyLac:
  assumes rng: "ids_in_range n" and ap: "TempApplyLac n lac = Some (n1, t, s)"
    and len: "2 < length t" and res: "restores n1 m"
  shows "\<exists>m'. Recov_v2 m t = Some m' \<and> restores n m'"
proof (cases "LAC_IsConst lac")
  case True
  obtain nc c0 c1 where cc: "CreateConstsIfNotExist n = (nc, c0, c1)"
    by (cases "CreateConstsIfNotExist n") auto
  from ap True cc have tr: "TempRepl_v2 nc (targId lac) s = Some (n1, t)"
    by (auto simp: TempApplyLac_def Let_def split: option.splits if_splits)
  from CreateConstsIfNotExist_restores [OF rng cc] have r0: "restores n nc" by simp
  from undo_TempRepl_v2 [OF tr len res] obtain m' where
    "Recov_v2 m t = Some m'" "restores nc m'" by blast
  with r0 show ?thesis by (blast intro: restores_trans)
next
  case False
  from ap False obtain ns t0 where cn: "CreateNode n (divs lac) (sop lac) = Some (ns, s)"
    and tr: "TempRepl_v2 ns (targId lac) s = Some (n1, t0)" and t: "t = t0 @ [- 1, int s]"
    by (auto simp: TempApplyLac_def split: option.splits)
  from TempRepl_v2_redirected [OF tr] obtain ps where
    t0: "t0 = [int (targId lac), int s] @ trace_of_pairs ps"
    and red: "redirected ns (targId lac) s (set ps) (map fst ps) n1"
    and fs: "map fst ps = filter (\<lambda>f. f \<noteq> s) (vFanouts ns (targId lac))"
    and props: "\<forall>(f, i)\<in>set ps. IsObj ns f \<and> i < length (vFanins ns f) \<and> vFanins ns f ! i = targId lac"
    and dist: "distinct ps" and neq: "targId lac \<noteq> s"
    and ots: "IsObj ns (targId lac)" and oss: "IsObj ns s"
    by blast
  from undo_pairs [OF red fs props dist neq ots oss res] obtain m1 where
    fold: "fold_option (\<lambda>(f, i) k. PatchFanin k f i s (targId lac)) ps m = Some m1"
    and r1: "restores ns m1"
    by blast
  from undo_CreateNode [OF rng cn r1] obtain m' where
    del: "DelObj m1 s = Some m'" and r: "restores n m'" by blast
  have "Recov_v2 m ([int (targId lac), int s] @ trace_of_pairs ps @ [- 1, int s]) = Some m'"
  proof (subst Recov_v2_trace)
    show "[- 1, int s] = [] \<or> (\<exists>dels. [- 1, int s] = - 1 # map int dels)"
      by (rule disjI2, rule exI [of _ "[s]"]) simp
    show "ps \<noteq> [] \<or> [- 1, int s] \<noteq> []" by simp
    show "(case fold_option (\<lambda>(f, i) k. PatchFanin k f i s (targId lac)) ps m of None \<Rightarrow> None
        | Some m1 \<Rightarrow> fold_option (\<lambda>x k. DelObj k (nat x)) (drop 1 [- 1, int s]) m1) = Some m'"
      by (simp add: fold del)
  qed
  with t t0 r show ?thesis by simp
qed

lemma TempApplyLac_ids_in_range:
  assumes rng: "ids_in_range n" and ap: "TempApplyLac n lac = Some (n1, t, s)"
  shows "ids_in_range n1"
proof (cases "LAC_IsConst lac")
  case True
  obtain nc c0 c1 where cc: "CreateConstsIfNotExist n = (nc, c0, c1)"
    by (cases "CreateConstsIfNotExist n") auto
  from ap True cc have tr: "TempRepl_v2 nc (targId lac) s = Some (n1, t)"
    by (auto simp: TempApplyLac_def Let_def split: option.splits if_splits)
  from CreateConstsIfNotExist_restores [OF rng cc] have "ids_in_range nc" by simp
  with tr show ?thesis by (rule TempRepl_v2_ids_in_range)
next
  case False
  from ap False obtain ns t0 where cn: "CreateNode n (divs lac) (sop lac) = Some (ns, s)"
    and tr: "TempRepl_v2 ns (targId lac) s = Some (n1, t0)"
    by (auto simp: TempApplyLac_def split: option.splits)
  note cf = CreateNode_facts [OF rng cn]
  have "ids_in_range ns"
    using rng unfolding ids_in_range_def cf(7,8,9) by (auto simp: IsObj_def cf(4) less_Suc_eq cf(1))
  with tr show ?thesis by (rule TempRepl_v2_ids_in_range)
qed

lemma fold_option_append:
  "fold_option f (xs @ ys) s = (case fold_option f xs s of None \<Rightarrow> None | Some s' \<Rightarrow> fold_option f ys s')"
  by (induction xs arbitrary: s) (auto split: option.splits)

lemma RecovNet_Cons:
  "RecovNet m (t # ts) = (case RecovNet m ts of None \<Rightarrow> None | Some m1 \<Rightarrow> Recov_v2 m1 t)"
  by (simp add: RecovNet_def fold_option_append split: option.splits)

lemma rollback_general:
  "ids_in_range net \<Longrightarrow> apply_edits net edits = Some (net', traces) \<Longrightarrow>
   \<forall>t\<in>set traces. 2 < length t \<Longrightarrow> restores net' m \<Longrightarrow>
   \<exists>m'. RecovNet m traces = Some m' \<and> restores net m'"
proof (induction edits arbitrary: net traces)
  case Nil
  then show ?case by (simp add: RecovNet_def)
next
  case (Cons e es)
  from Cons.prems(2) obtain n1 t ts where
    e: "apply_edit net e = Some (n1, t)" and es: "apply_edits n1 es = Some (net', ts)"
    and traces: "traces = t # ts"
    by (auto split: option.splits)
  have len: "2 < length t" and lens: "\<forall>t\<in>set ts. 2 < length t"
    using Cons.prems(3) traces by simp_all
  have step: "ids_in_range n1 \<and> (\<forall>k. restores n1 k \<longrightarrow> (\<exists>m'. Recov_v2 k t = Some m' \<and> restores net m'))"
  proof (cases e)
    case (ByTempApplyLac lac)
    with e obtain s where ap: "TempApplyLac net lac = Some (n1, t, s)"
      by (auto simp: apply_edit_def split: option.splits)
    from TempApplyLac_ids_in_range [OF Cons.prems(1) ap]
      undo_TempApplyLac [OF Cons.prems(1) ap len]
    show ?thesis by blast
  next
    case (ByTempRepl_v2 ts' ss')
    with e have tr: "TempRepl_v2 net ts' ss' = Some (n1, t)"
      by (simp add: apply_edit_def)
    from TempRepl_v2_ids_in_range [OF tr Cons.prems(1)] undo_TempRepl_v2 [OF tr len]
    show ?thesis by blast
  qed
  from Cons.IH [OF _ es lens Cons.prems(4)] step obtain m1 where
    m1: "RecovNet m ts = Some m1" "restores n1 m1" by blast
  with step obtain m' where "Recov_v2 m1 t = Some m'" "restores net m'" by blast
  with m1 traces show ?case by (simp add: RecovNet_Cons)
qed



subsection \<open>An example network\<close>

text \<open>
  Primary inputs 1 and 2, node 3 = and(1, 2), node 4 = and(3, 2), primary output 5 driven
  by node 4; ID 0 is the null entry ABC keeps at the head of \<open>vObjs\<close>. The network has no
  constant node.
\<close>

definition sop_and2 :: string where
  "sop_and2 = [CHR ''1'', CHR ''1'', CHR '' '', CHR ''1'', newline]"

definition sop_buf :: string where
  "sop_buf = [CHR ''1'', CHR '' '', CHR ''1'', newline]"

definition sop_inv :: string where
  "sop_inv = [CHR ''0'', CHR '' '', CHR ''1'', newline]"

definition example_net :: Abc_Ntk where
  "example_net =
     \<lparr>ObjType = (\<lambda>i. if i = 1 \<or> i = 2 then Some ABC_OBJ_PI
                      else if i = 3 \<or> i = 4 then Some ABC_OBJ_NODE
                      else if i = 5 then Some ABC_OBJ_PO else None),
      vFanins = (\<lambda>i. if i = 3 then [1, 2] else if i = 4 then [3, 2] else if i = 5 then [4] else []),
      vFanouts = (\<lambda>i. if i = 1 then [3] else if i = 2 then [3, 4] else if i = 3 then [4]
                       else if i = 4 then [5] else []),
      pData = (\<lambda>i. if i = 3 \<or> i = 4 then sop_and2 else []),
      ObjName = (\<lambda>i. if i = 1 then ''a'' else if i = 2 then ''b'' else if i = 5 then ''f'' else []),
      nObjNumMax = 6, vPis = [1, 2], vPos = [5]\<rparr>"

definition lac_buf :: LAC where
  "lac_buf = \<lparr>targId = 3, sizeGain = 1, err = 0, err2 = DBL_MAX, divs = [1], sop = sop_buf\<rparr>"

definition lac_zero3 :: LAC where
  "lac_zero3 = \<lparr>targId = 3, sizeGain = 1, err = 0, err2 = DBL_MAX, divs = [], sop = sop_const0\<rparr>"

definition lac_zero4 :: LAC where
  "lac_zero4 = \<lparr>targId = 4, sizeGain = 2, err = 0, err2 = DBL_MAX, divs = [], sop = sop_const0\<rparr>"

lemma example_net_ids_in_range: "ids_in_range example_net"
  by (auto simp: ids_in_range_def example_net_def IsObj_def split: if_splits)

lemma example_net_traces:
  "map_option snd (apply_edits example_net [ByTempApplyLac lac_buf, ByTempApplyLac lac_zero4])
   = Some [[3, 6, 4, 0, - 1, 6], [4, 7, 5, 0]]"
  by code_simp

text \<open>
  C5 (amended). For a network whose IDs are in range and any sequence of temporary edits by
  \<open>TempApplyLac\<close> or \<open>TempRepl_v2\<close> that ran without a failed assertion and each redirected
  at least one fanout (\<open>Recov_v2\<close> asserts that a trace is longer than 2), undoing the traces
  from the last to the first succeeds and restores every object of the network under its
  ID, with its type, its fanin list in the same order and its function, and its fanouts up
  to their order; the helper nodes the edits created are deleted, except the constant nodes
  that \<open>CreateConstsIfNotExist\<close> created, which stay without fanouts.
\<close>

theorem rollback_restores_network:
  assumes "ids_in_range net" and "apply_edits net edits = Some (net', traces)"
    and "\<forall>t\<in>set traces. 2 < length t"
  shows "\<exists>net''. RecovNet net' traces = Some net'' \<and> restores net net''"
  using rollback_general [OF assms restores_refl] .


text \<open>The theorem at two nested edits of the example network: a buffer for node 3, then constant 0 for node 4.\<close>

theorem rollback_restores_network_witness:
  "ids_in_range example_net \<and>
   (\<exists>net' traces.
      apply_edits example_net [ByTempApplyLac lac_buf, ByTempApplyLac lac_zero4] = Some (net', traces) \<and>
      list_all (\<lambda>t. 2 < length t) traces \<and>
      (\<exists>net''. RecovNet net' traces = Some net'' \<and> restores example_net net''))"
proof -
  from example_net_traces obtain net' where
    ap: "apply_edits example_net [ByTempApplyLac lac_buf, ByTempApplyLac lac_zero4]
       = Some (net', [[3, 6, 4, 0, - 1, 6], [4, 7, 5, 0]])"
    by auto
  have len: "\<forall>t\<in>set [[3, 6, 4, 0, - 1, 6], [4, 7, 5, 0 :: int]]. 2 < length t" by simp
  from rollback_restores_network [OF example_net_ids_in_range ap len] obtain net'' where
    r: "RecovNet net' [[3, 6, 4, 0, - 1, 6], [4, 7, 5, 0]] = Some net''" "restores example_net net''"
    by blast
  have "list_all (\<lambda>t. 2 < length t) [[3, 6, 4, 0, - 1, 6], [4, 7, 5, 0 :: int]]" by simp
  with ap r example_net_ids_in_range show ?thesis by blast
qed

text \<open>
  C5 as stated fails on the node IDs: the example network has no object 6 or 7; applying
  the constant-0 candidate at node 3 and undoing its trace leaves the two constant nodes
  that the edit created.
\<close>

theorem rollback_keeps_created_constants:
  "(case TempApplyLac example_net lac_zero3 of
      None \<Rightarrow> None
    | Some (net1, replTrace, ssId) \<Rightarrow>
        map_option (\<lambda>net2. (IsObj net2 6, IsObj net2 7)) (RecovNet net1 [replTrace]))
     = Some (True, True)
   \<and> \<not> IsObj example_net 6 \<and> \<not> IsObj example_net 7"
  by code_simp


section \<open>Logic simulation (simulator.h, simulator.cc)\<close>

subsection \<open>Topological order\<close>

text \<open>
  \<open>NetMan::CalcTopoOrdRec\<close> returns at once on an object that is not a node or is a
  constant; an ID at or beyond the length of \<open>vObjs\<close> has no object.
\<close>

definition is_gate :: "Abc_Ntk \<Rightarrow> nat \<Rightarrow> bool" where
  "is_gate ntk i \<longleftrightarrow> i < nObjNumMax ntk \<and> IsNode ntk i \<and> \<not> IsConst ntk i"

text \<open>
  The recursion of \<open>CalcTopoOrdRec\<close> with its call stack made explicit: a frame is a
  node that has been marked together with its fanins still to visit. A fanin that is marked
  or is not a gate is skipped; another one is marked and gets a frame of its own; a node whose
  fanins are all done is appended to \<open>nodes\<close>.
\<close>

function CalcTopoOrdRec ::
  "Abc_Ntk \<Rightarrow> (nat \<times> nat list) list \<Rightarrow> nat set \<Rightarrow> nat list \<Rightarrow> nat set \<times> nat list" where
  "CalcTopoOrdRec ntk [] trav nodes = (trav, nodes)"
| "CalcTopoOrdRec ntk ((pObj, []) # stack) trav nodes =
     CalcTopoOrdRec ntk stack trav (nodes @ [pObj])"
| "CalcTopoOrdRec ntk ((pObj, pFanin # rest) # stack) trav nodes =
     (if pFanin \<in> trav \<or> \<not> is_gate ntk pFanin
      then CalcTopoOrdRec ntk ((pObj, rest) # stack) trav nodes
      else CalcTopoOrdRec ntk ((pFanin, vFanins ntk pFanin) # (pObj, rest) # stack)
             (insert pFanin trav) nodes)"
  by pat_completeness auto
termination
proof (relation "inv_image (less_than <*lex*> less_than)
    (\<lambda>(ntk, stack, trav, nodes).
       (card ({i. i < nObjNumMax ntk} - trav), sum_list (map (\<lambda>(pObj, rest). Suc (length rest)) stack)))")
  show "wf (inv_image (less_than <*lex*> less_than)
    (\<lambda>(ntk, stack, trav, nodes).
       (card ({i. i < nObjNumMax ntk} - trav), sum_list (map (\<lambda>(pObj, rest). Suc (length rest)) stack))))"
    by (intro wf_inv_image wf_lex_prod wf_less_than)
next
  fix ntk :: Abc_Ntk and pObj :: nat and stack :: "(nat \<times> nat list) list" and trav :: "nat set"
    and nodes :: "nat list"
  show "((ntk, stack, trav, nodes @ [pObj]), (ntk, (pObj, []) # stack, trav, nodes))
      \<in> inv_image (less_than <*lex*> less_than)
    (\<lambda>(ntk, stack, trav, nodes).
       (card ({i. i < nObjNumMax ntk} - trav), sum_list (map (\<lambda>(pObj, rest). Suc (length rest)) stack)))"
    by simp
next
  fix ntk :: Abc_Ntk and pObj pFanin :: nat and rest :: "nat list"
    and stack :: "(nat \<times> nat list) list" and trav :: "nat set" and nodes :: "nat list"
  show "((ntk, (pObj, rest) # stack, trav, nodes), (ntk, (pObj, pFanin # rest) # stack, trav, nodes))
      \<in> inv_image (less_than <*lex*> less_than)
    (\<lambda>(ntk, stack, trav, nodes).
       (card ({i. i < nObjNumMax ntk} - trav), sum_list (map (\<lambda>(pObj, rest). Suc (length rest)) stack)))"
    by simp
next
  fix ntk :: Abc_Ntk and pObj pFanin :: nat and rest :: "nat list"
    and stack :: "(nat \<times> nat list) list" and trav :: "nat set" and nodes :: "nat list"
  assume "\<not> (pFanin \<in> trav \<or> \<not> is_gate ntk pFanin)"
  then have a: "pFanin \<notin> trav" "pFanin < nObjNumMax ntk" by (simp_all add: is_gate_def)
  have e: "{i. i < nObjNumMax ntk} - insert pFanin trav = ({i. i < nObjNumMax ntk} - trav) - {pFanin}"
    by auto
  have m: "pFanin \<in> {i. i < nObjNumMax ntk} - trav" using a by simp
  have f: "finite ({i. i < nObjNumMax ntk} - trav)" by simp
  have "card ({i. i < nObjNumMax ntk} - insert pFanin trav) < card ({i. i < nObjNumMax ntk} - trav)"
    unfolding e by (rule card_Diff1_less [OF f m])
  then show "((ntk, (pFanin, vFanins ntk pFanin) # (pObj, rest) # stack, insert pFanin trav, nodes),
       (ntk, (pObj, pFanin # rest) # stack, trav, nodes))
      \<in> inv_image (less_than <*lex*> less_than)
    (\<lambda>(ntk, stack, trav, nodes).
       (card ({i. i < nObjNumMax ntk} - trav), sum_list (map (\<lambda>(pObj, rest). Suc (length rest)) stack)))"
    by simp
qed

text \<open>
  \<open>NetMan::CalcTopoOrd\<close>: the traversal from the driver of each primary output, in output
  order. A primary output without a fanin is read out of range in the source.
\<close>

definition CalcTopoOrd :: "Abc_Ntk \<Rightarrow> nat list option" where
  "CalcTopoOrd ntk =
     (if \<exists>po\<in>set (vPos ntk). vFanins ntk po = [] then None
      else Some (snd (fold
        (\<lambda>po (trav, nodes).
           let pDriver = hd (vFanins ntk po)
           in if pDriver \<in> trav \<or> \<not> is_gate ntk pDriver then (trav, nodes)
              else CalcTopoOrdRec ntk [(pDriver, vFanins ntk pDriver)] (insert pDriver trav) nodes)
        (vPos ntk) ({}, []))))"


subsection \<open>Bit vectors\<close>

text \<open>
  \<open>BitVect\<close> is \<open>boost::dynamic_bitset\<close>; index \<open>j\<close> is pattern \<open>j\<close>. Its binary
  operators assert that both sides have the same size.
\<close>

type_synonym BitVect = "bool list"

definition bv_flip :: "BitVect \<Rightarrow> BitVect" where
  "bv_flip a = map Not a"

definition bv_set :: "BitVect \<Rightarrow> BitVect" where
  "bv_set a = map (\<lambda>_. True) a"

definition bv_reset :: "BitVect \<Rightarrow> BitVect" where
  "bv_reset a = map (\<lambda>_. False) a"

definition bv_and :: "BitVect \<Rightarrow> BitVect \<Rightarrow> BitVect option" where
  "bv_and a b = (if length a = length b then Some (map2 (\<and>) a b) else None)"

definition bv_or :: "BitVect \<Rightarrow> BitVect \<Rightarrow> BitVect option" where
  "bv_or a b = (if length a = length b then Some (map2 (\<or>) a b) else None)"

definition bv_xor :: "BitVect \<Rightarrow> BitVect \<Rightarrow> BitVect option" where
  "bv_xor a b = (if length a = length b then Some (map2 (\<noteq>) a b) else None)"

definition bv_count :: "BitVect \<Rightarrow> nat" where
  "bv_count a = length (filter (\<lambda>b. b) a)"

definition bv_test :: "BitVect \<Rightarrow> nat \<Rightarrow> bool option" where
  "bv_test a j = (if j < length a then Some (a ! j) else None)"

subsection \<open>Sum-of-products strings\<close>

text \<open>
  Modelled from the spec: the SOP convention of the Network collaborator (ABC's
  \<open>Abc_SopGetVarNum\<close> and \<open>Abc_SopIsComplement\<close>, not in the repository's files). Every
  cube is a line \<open><cube-bits> <output-polarity>\n\<close>; the number of variables is the length of
  the first line less the blank and the polarity, and the SOP is complemented when the
  polarity of the first line is \<open>0\<close>.
\<close>

definition Abc_SopGetVarNum :: "string \<Rightarrow> int" where
  "Abc_SopGetVarNum pSop =
     (if newline \<in> set pSop then int (length (takeWhile (\<lambda>c. c \<noteq> newline) pSop)) - 2 else - 1)"

definition Abc_SopIsComplement :: "string \<Rightarrow> bool option" where
  "Abc_SopIsComplement pSop =
     (if newline \<notin> set pSop then None
      else case rev (takeWhile (\<lambda>c. c \<noteq> newline) pSop) of
          [] \<Rightarrow> None
        | c # _ \<Rightarrow> Some (c = CHR ''0'' \<or> c = CHR ''n''))"

text \<open>
  The literal loop shared by \<open>Simulator::SimSop\<close>, \<open>Simulator::UpdSop\<close> and
  \<open>Simulator::UpdSopForBoolDiff\<close>: \<open>for (i = 0; pCube[i] != ' '; i++)\<close>. \<open>datFi i\<close> is the
  pattern of the \<open>i\<close>-th fanin, \<open>None\<close> when there is no such fanin (an access out of range in
  the source); a character other than \<open>-\<close>, \<open>0\<close>, \<open>1\<close> fails \<open>assert(0)\<close>, and so does, in the
  model, a cube that no blank ends.
\<close>

fun cube_lits ::
  "(nat \<Rightarrow> BitVect option) \<Rightarrow> string \<Rightarrow> nat \<Rightarrow> bool \<times> BitVect \<Rightarrow> (bool \<times> BitVect) option" where
  "cube_lits datFi [] i st = None"
| "cube_lits datFi (c # pCube) i (isFirst, product) =
     (if c = CHR '' '' then Some (isFirst, product)
      else case datFi i of
          None \<Rightarrow> None
        | Some d \<Rightarrow>
            if c = CHR ''-'' then cube_lits datFi pCube (Suc i) (isFirst, product)
            else if c = CHR ''0'' then
              (if isFirst then cube_lits datFi pCube (Suc i) (False, bv_flip d)
               else case bv_and product (bv_flip d) of
                   None \<Rightarrow> None
                 | Some p \<Rightarrow> cube_lits datFi pCube (Suc i) (False, p))
            else if c = CHR ''1'' then
              (if isFirst then cube_lits datFi pCube (Suc i) (False, d)
               else case bv_and product d of
                   None \<Rightarrow> None
                 | Some p \<Rightarrow> cube_lits datFi pCube (Suc i) (False, p))
            else None)"

text \<open>
  The cube loop \<open>for (pCube = pSop; *pCube; pCube += nVars + 3)\<close>. \<open>res\<close> is the
  bit-vector being written (\<open>res\<close> in \<open>SimSop\<close>, \<open>dat[pObj->Id]\<close> in \<open>UpdSop\<close>,
  \<open>tempDat[pObj->Id]\<close> in \<open>UpdSopForBoolDiff\<close>); the fanin patterns may depend on it, since
  \<open>UpdSop\<close> reads \<open>dat\<close> while it writes it. A step beyond the end of the string ends the
  loop in the model.
\<close>

function sop_cubes ::
  "(BitVect \<Rightarrow> nat \<Rightarrow> BitVect option) \<Rightarrow> nat \<Rightarrow> string \<Rightarrow> bool \<Rightarrow> BitVect \<Rightarrow> BitVect \<Rightarrow> BitVect option" where
  "sop_cubes datFi step pCube atStart product res =
     (if pCube = [] \<or> step = 0 then Some res
      else case cube_lits (datFi res) pCube 0 (True, product) of
          None \<Rightarrow> None
        | Some (isFirst, product1) \<Rightarrow>
            let product2 = (if isFirst then bv_set product1 else product1)
            in case (if atStart then Some product2 else bv_or res product2) of
                None \<Rightarrow> None
              | Some res1 \<Rightarrow> sop_cubes datFi step (drop step pCube) False product2 res1)"
  by pat_completeness auto
termination
  by (relation "measure (\<lambda>(datFi, step, pCube, atStart, product, res). length pCube)") auto

declare sop_cubes.simps [simp del]

definition sop_loop ::
  "(BitVect \<Rightarrow> nat \<Rightarrow> BitVect option) \<Rightarrow> nat \<Rightarrow> string \<Rightarrow> BitVect \<Rightarrow> BitVect option" where
  "sop_loop datFi n_frame pSop res =
     (case sop_cubes datFi (nat (Abc_SopGetVarNum pSop + 3)) pSop True (replicate n_frame False) res of
        None \<Rightarrow> None
      | Some res1 \<Rightarrow>
          (case Abc_SopIsComplement pSop of
             None \<Rightarrow> None
           | Some c \<Rightarrow> Some (if c then bv_flip res1 else res1)))"

subsection \<open>The simulator\<close>

datatype DISTR_TYPE = UNIF | ENUM

record Simulator =
  seed :: nat
  nFrame :: nat
  distrType :: DISTR_TYPE
  dat :: "nat \<Rightarrow> BitVect"
  tempDat :: "(nat \<Rightarrow> BitVect) option"

text \<open>
  The constructor. The simulator shares the network of its \<open>NetMan\<close> argument, which the
  functions below take as \<open>ntk\<close>. \<open>dat\<close> has one entry per ID below \<open>GetIdMaxPlus1()\<close>;
  \<open>tempDat\<close> is empty (\<open>None\<close>) until \<open>CalcBoolDiff\<close> sizes it.
\<close>

definition Simulator_new :: "Abc_Ntk \<Rightarrow> nat \<Rightarrow> nat \<Rightarrow> DISTR_TYPE \<Rightarrow> Simulator option" where
  "Simulator_new ntk seed0 n_frame distr_type =
     (if distr_type = ENUM \<and> \<not> length (vPis ntk) < 30 then None
      else let n = (if distr_type = ENUM then 2 ^ length (vPis ntk) else n_frame)
        in Some \<lparr>seed = seed0, nFrame = n, distrType = distr_type,
                 dat = (\<lambda>i. replicate n False), tempDat = None\<rparr>)"

definition IsConst0 :: "Abc_Ntk \<Rightarrow> nat \<Rightarrow> bool" where
  "IsConst0 ntk i \<longleftrightarrow> IsNode ntk i \<and> Abc_NodeIsConst0 ntk i"

definition IsConst1 :: "Abc_Ntk \<Rightarrow> nat \<Rightarrow> bool" where
  "IsConst1 ntk i \<longleftrightarrow> IsNode ntk i \<and> Abc_NodeIsConst1 ntk i"

definition InitConstNodes :: "Abc_Ntk \<Rightarrow> Simulator \<Rightarrow> Simulator" where
  "InitConstNodes ntk s =
     s\<lparr>dat := (\<lambda>i. if i < nObjNumMax ntk \<and> IsConst0 ntk i then bv_reset (dat s i)
                   else if i < nObjNumMax ntk \<and> IsConst1 ntk i then bv_set (dat s i)
                   else dat s i)\<rparr>"

text \<open>
  \<open>GenInpUnif\<close> and \<open>GenInpUnifFast\<close> draw the bits of the primary inputs, one input after
  the other, from a Mersenne twister seeded with \<open>seed\<close>: bit \<open>j\<close> of the \<open>i\<close>-th input depends
  on the seed, the number of frames, \<open>i\<close> and \<open>j\<close> only. The generator is the parameter
  \<open>rnd\<close>.
\<close>

definition GenInpUnifFast ::
  "(nat \<Rightarrow> nat \<Rightarrow> nat \<Rightarrow> nat \<Rightarrow> bool) \<Rightarrow> Abc_Ntk \<Rightarrow> Simulator \<Rightarrow> Simulator" where
  "GenInpUnifFast rnd ntk s =
     InitConstNodes ntk
       (s\<lparr>dat := fold (\<lambda>i d. d(vPis ntk ! i := map (rnd (seed s) (nFrame s) i) [0..<nFrame s]))
                    [0..<length (vPis ntk)] (dat s)\<rparr>)"

text \<open>\<open>GenInpEnum\<close>: pattern \<open>j\<close> of the \<open>i\<close>-th input, with the \<open>phase\<close> flag of the source.\<close>

fun enum_bits :: "nat \<Rightarrow> nat list \<Rightarrow> bool \<Rightarrow> BitVect" where
  "enum_bits i [] phase = []"
| "enum_bits i (j # js) phase =
     (let phase1 = (if j mod 2 ^ i = 0 then \<not> phase else phase)
      in phase1 # enum_bits i js phase1)"

definition GenInpEnum :: "Abc_Ntk \<Rightarrow> Simulator \<Rightarrow> Simulator option" where
  "GenInpEnum ntk s =
     (if \<not> length (vPis ntk) < 30 \<or> 2 ^ length (vPis ntk) \<noteq> nFrame s then None
      else Some (InitConstNodes ntk
        (s\<lparr>dat := fold (\<lambda>i d. d(vPis ntk ! i := enum_bits i [0..<nFrame s] True))
                     [0..<length (vPis ntk)] (dat s)\<rparr>)))"

definition GenInpPatts ::
  "(nat \<Rightarrow> nat \<Rightarrow> nat \<Rightarrow> nat \<Rightarrow> bool) \<Rightarrow> Abc_Ntk \<Rightarrow> Simulator \<Rightarrow> Simulator option" where
  "GenInpPatts rnd ntk s =
     (case distrType s of UNIF \<Rightarrow> Some (GenInpUnifFast rnd ntk s) | ENUM \<Rightarrow> GenInpEnum ntk s)"


text \<open>\<open>Simulator::SimSop\<close>: the pattern of a function \<open>sop\<close> of the nodes \<open>faninIds\<close>.\<close>

definition SimSop :: "Simulator \<Rightarrow> nat list \<Rightarrow> string \<Rightarrow> BitVect \<Rightarrow> BitVect option" where
  "SimSop s faninIds sop_str res =
     (if sop_str = sop_const0 then Some (bv_reset res)
      else if sop_str = sop_const1 then Some (bv_set res)
      else if Abc_SopGetVarNum sop_str \<noteq> int (length faninIds) then None
      else sop_loop (\<lambda>_ i. if i < length faninIds then Some (dat s (faninIds ! i)) else None)
             (nFrame s) sop_str res)"

text \<open>\<open>Simulator::UpdSop\<close> and \<open>Simulator::UpdSopNode\<close>.\<close>

definition UpdSop :: "Abc_Ntk \<Rightarrow> Simulator \<Rightarrow> nat \<Rightarrow> string \<Rightarrow> Simulator option" where
  "UpdSop ntk s pObj pSop =
     (case sop_loop
             (\<lambda>res i. if i < length (vFanins ntk pObj) \<and> IsObj ntk (vFanins ntk pObj ! i)
                then Some (if vFanins ntk pObj ! i = pObj then res else dat s (vFanins ntk pObj ! i))
                else None)
             (nFrame s) pSop (dat s pObj) of
        None \<Rightarrow> None
      | Some res \<Rightarrow> Some (s\<lparr>dat := (dat s)(pObj := res)\<rparr>))"

definition UpdSopNode :: "Abc_Ntk \<Rightarrow> Simulator \<Rightarrow> nat \<Rightarrow> Simulator option" where
  "UpdSopNode ntk s pObj =
     (if \<not> IsNode ntk pObj then None
      else if Abc_NodeIsConst ntk pObj then Some s
      else UpdSop ntk s pObj (pData ntk pObj))"

text \<open>\<open>Simulator::UpdNodeAndPoPatts\<close> on an SOP network, and \<open>Simulator::LogicSim\<close>.\<close>

definition UpdNodeAndPoPatts :: "Abc_Ntk \<Rightarrow> Simulator \<Rightarrow> Simulator option" where
  "UpdNodeAndPoPatts ntk s =
     (case CalcTopoOrd ntk of
        None \<Rightarrow> None
      | Some nodes \<Rightarrow>
          (case fold_option (\<lambda>pObj s1. UpdSopNode ntk s1 pObj) nodes s of
             None \<Rightarrow> None
           | Some s1 \<Rightarrow>
               Some (fold (\<lambda>pPo s2. s2\<lparr>dat := (dat s2)(pPo := dat s2 (hd (vFanins ntk pPo)))\<rparr>)
                       (vPos ntk) s1)))"

definition LogicSim ::
  "(nat \<Rightarrow> nat \<Rightarrow> nat \<Rightarrow> nat \<Rightarrow> bool) \<Rightarrow> Abc_Ntk \<Rightarrow> Simulator \<Rightarrow> Simulator option" where
  "LogicSim rnd ntk s =
     (case GenInpPatts rnd ntk s of None \<Rightarrow> None | Some s1 \<Rightarrow> UpdNodeAndPoPatts ntk s1)"

text \<open>\<open>Simulator::ReplInp\<close>: pattern \<open>iPatt\<close> of every primary input is overwritten.\<close>

definition ReplInp :: "Abc_Ntk \<Rightarrow> Simulator \<Rightarrow> nat \<Rightarrow> int list \<Rightarrow> Simulator option" where
  "ReplInp ntk s iPatt piVals =
     (if length (vPis ntk) \<noteq> length piVals then None
      else fold_option
        (\<lambda>iPi s1.
           if \<not> iPatt < length (dat s1 (vPis ntk ! iPi)) then None
           else if \<not> (piVals ! iPi = 0 \<or> piVals ! iPi = 1) then None
           else Some (s1\<lparr>dat := (dat s1)(vPis ntk ! iPi := (dat s1 (vPis ntk ! iPi))[iPatt := (piVals ! iPi = 1)])\<rparr>))
        [0..<length (vPis ntk)] s)"

text \<open>\<open>NetMan::IsPIOSame\<close>: the same numbers of inputs and outputs, with the same names in order.\<close>

definition IsPIOSame :: "Abc_Ntk \<Rightarrow> Abc_Ntk \<Rightarrow> bool" where
  "IsPIOSame ntk oth_net \<longleftrightarrow>
     map (ObjName ntk) (vPis ntk) = map (ObjName oth_net) (vPis oth_net) \<and>
     map (ObjName ntk) (vPos ntk) = map (ObjName oth_net) (vPos oth_net)"

text \<open>
  \<open>Simulator::GenInpFromOthSmlt\<close>: the pattern of each primary input is read from the other
  simulator at the ID this input has in this network.
\<close>

definition GenInpFromOthSmlt :: "Abc_Ntk \<Rightarrow> Simulator \<Rightarrow> Abc_Ntk \<Rightarrow> Simulator \<Rightarrow> Simulator option" where
  "GenInpFromOthSmlt ntk s othNtk othSmlt =
     (if \<not> IsPIOSame ntk othNtk then None
      else case fold_option
          (\<lambda>i s1. let piId = vPis ntk ! i
             in if length (dat othSmlt piId) \<noteq> nFrame s1 then None
                else Some (s1\<lparr>dat := (dat s1)(piId := dat othSmlt piId)\<rparr>))
          [0..<length (vPis ntk)] s of
          None \<Rightarrow> None
        | Some s1 \<Rightarrow> Some (InitConstNodes ntk s1))"

text \<open>\<open>Simulator::GenInpFromBitVects\<close>.\<close>

definition GenInpFromBitVects :: "Abc_Ntk \<Rightarrow> Simulator \<Rightarrow> BitVect list \<Rightarrow> Simulator option" where
  "GenInpFromBitVects ntk s piPatts =
     (if \<not> (length piPatts \<le> length (vPis ntk) \<and> 0 < length piPatts) then None
      else let s0 = s\<lparr>nFrame := length (piPatts ! 0)\<rparr>
        in case fold_option
            (\<lambda>i s1. if nFrame s1 \<noteq> length (piPatts ! i) then None
               else Some (s1\<lparr>dat := (dat s1)(vPis ntk ! i := piPatts ! i)\<rparr>))
            [0..<length piPatts] s0 of
            None \<Rightarrow> None
          | Some s1 \<Rightarrow> Some (InitConstNodes ntk s1))"

text \<open>
  \<open>GetValue\<close> (simulator.h) and \<open>Simulator::GetOutput\<close>: the unsigned number whose bit \<open>k\<close>
  is pattern \<open>iPatt\<close> of the \<open>k\<close>-th vector; \<open>BigInt\<close> has 512 bits and the width is asserted
  to be at most 500.
\<close>

definition GetValue :: "BitVect list \<Rightarrow> nat \<Rightarrow> int option" where
  "GetValue dats iPatt =
     (if \<not> int (length dats) - 1 < 500 then None
      else fold_option
        (\<lambda>k ret. case bv_test (dats ! k) iPatt of
             None \<Rightarrow> None
           | Some b \<Rightarrow> Some (ret * 2 + (if b then 1 else 0)))
        (rev [0..<length dats]) 0)"

definition GetOutput :: "Abc_Ntk \<Rightarrow> Simulator \<Rightarrow> nat \<Rightarrow> int option" where
  "GetOutput ntk s iPatt =
     (if \<not> iPatt < nFrame s then None else GetValue (map (dat s) (vPos ntk)) iPatt)"

subsection \<open>Boolean difference\<close>

text \<open>
  \<open>Simulator::UpdSopForBoolDiff\<close> and \<open>Simulator::UpdSopNodeForBoolDiff\<close>. The traversal marks
  of the network are the set \<open>trav\<close>; a marked fanin is read from \<open>tempDat\<close>, another one
  from \<open>dat\<close>.
\<close>

definition UpdSopForBoolDiff ::
  "Abc_Ntk \<Rightarrow> Simulator \<Rightarrow> (nat \<Rightarrow> BitVect) \<times> nat set \<Rightarrow> nat \<Rightarrow> string \<Rightarrow> ((nat \<Rightarrow> BitVect) \<times> nat set) option" where
  "UpdSopForBoolDiff ntk s st pObj pSop =
     (case sop_loop
             (\<lambda>res i. if i < length (vFanins ntk pObj) \<and> IsObj ntk (vFanins ntk pObj ! i)
                then Some (let pFanin = vFanins ntk pObj ! i
                           in if pFanin \<in> snd st then (if pFanin = pObj then res else fst st pFanin)
                              else dat s pFanin)
                else None)
             (nFrame s) pSop (fst st pObj) of
        None \<Rightarrow> None
      | Some res \<Rightarrow> Some ((fst st)(pObj := res), insert pObj (snd st)))"

definition UpdSopNodeForBoolDiff ::
  "Abc_Ntk \<Rightarrow> Simulator \<Rightarrow> (nat \<Rightarrow> BitVect) \<times> nat set \<Rightarrow> nat \<Rightarrow> ((nat \<Rightarrow> BitVect) \<times> nat set) option" where
  "UpdSopNodeForBoolDiff ntk s st pObj =
     (if IsObjPi ntk pObj \<or> Abc_NodeIsConst ntk pObj then None
      else if IsObjPo ntk pObj then
        (case vFanins ntk pObj of
           [] \<Rightarrow> None
         | pDriver # _ \<Rightarrow>
             Some ((fst st)(pObj := (if pDriver \<in> snd st then fst st pDriver else dat s pDriver)), snd st))
      else UpdSopForBoolDiff ntk s st pObj (pData ntk pObj))"

text \<open>
  \<open>Simulator::CalcBoolDiff\<close>: the node \<open>topoNodes[idx]\<close> is flipped in \<open>tempDat\<close>, the nodes
  after it in \<open>topoNodes\<close> that have a marked fanin are recomputed, then the primary
  outputs; the result holds, for each primary output, the patterns on which it changed.
\<close>

definition CalcBoolDiff ::
  "Abc_Ntk \<Rightarrow> Simulator \<Rightarrow> nat list \<Rightarrow> nat \<Rightarrow> (Simulator \<times> BitVect list) option" where
  "CalcBoolDiff ntk s topoNodes idx =
     (if \<not> idx < length topoNodes then None
      else
        let tempDat0 = (case tempDat s of None \<Rightarrow> (\<lambda>i. replicate (nFrame s) False) | Some t \<Rightarrow> t);
            pTarg = topoNodes ! idx;
            st0 = (tempDat0(pTarg := bv_flip (dat s pTarg)), {pTarg})
        in case fold_option
            (\<lambda>k st. let pObj = topoNodes ! k
               in if \<exists>pFanin\<in>set (vFanins ntk pObj). pFanin \<in> snd st
                  then UpdSopNodeForBoolDiff ntk s st pObj else Some st)
            [Suc idx..<length topoNodes] st0 of
            None \<Rightarrow> None
          | Some st1 \<Rightarrow>
              (case fold_option (\<lambda>pPo st. UpdSopNodeForBoolDiff ntk s st pPo) (vPos ntk) st1 of
                 None \<Rightarrow> None
               | Some st2 \<Rightarrow>
                   (case fold_option
                       (\<lambda>poId bd. case bv_xor (dat s poId) (fst st2 poId) of
                            None \<Rightarrow> None
                          | Some b \<Rightarrow> Some (bd @ [b]))
                       (vPos ntk) [] of
                      None \<Rightarrow> None
                    | Some bdPosWrtNode \<Rightarrow> Some (s\<lparr>tempDat := Some (fst st2)\<rparr>, bdPosWrtNode))))"


section \<open>Batch error estimation (error.cc)\<close>

datatype METR_TYPE = ER | MED | MSE | MHD | MAXED | MAXHD

text \<open>\<open>LACMan::RemLargeErrLacs\<close>.\<close>

definition RemLargeErrLacs :: "real \<Rightarrow> LAC list \<Rightarrow> LAC list" where
  "RemLargeErrLacs bound pLacs = filter (\<lambda>pLac. \<not> DoubleGreat (err pLac) bound) pLacs"

text \<open>
  The scan over the patterns that both metrics use: the running maximum of the deviations,
  left as soon as it exceeds \<open>bound\<close> (\<open>errUppBound\<close>, or \<open>runMin\<close> under enumeration).
\<close>

fun MaxErrSim :: "(nat \<Rightarrow> int option) \<Rightarrow> int \<Rightarrow> nat list \<Rightarrow> int \<Rightarrow> int option" where
  "MaxErrSim dev bound [] maxErrSim = Some maxErrSim"
| "MaxErrSim dev bound (iPatt # rest) maxErrSim =
     (case dev iPatt of
        None \<Rightarrow> None
      | Some d \<Rightarrow>
          let m = max maxErrSim d
          in if m > bound then Some m else MaxErrSim dev bound rest m)"

text \<open>The would-be patterns of the primary outputs: \<open>dat[po] ^ (nodeChange & bdPosWrtNode[j])\<close>.\<close>

definition TempPos :: "Abc_Ntk \<Rightarrow> Simulator \<Rightarrow> BitVect \<Rightarrow> BitVect list \<Rightarrow> BitVect list option" where
  "TempPos ntk appSmlt nodeChange bdPosWrtNode =
     fold_option
       (\<lambda>j tempPos.
          if \<not> j < length bdPosWrtNode then None
          else case bv_and nodeChange (bdPosWrtNode ! j) of
              None \<Rightarrow> None
            | Some c \<Rightarrow>
                (case bv_xor (dat appSmlt (vPos ntk ! j)) c of
                   None \<Rightarrow> None
                 | Some t \<Rightarrow> Some (tempPos @ [t])))
       [0..<length (vPos ntk)] []"

text \<open>The Hamming distance on pattern \<open>iPatt\<close>: \<open>hd += poDiffs[iPo][iPatt]\<close>.\<close>

definition HammingAt :: "BitVect list \<Rightarrow> nat \<Rightarrow> int option" where
  "HammingAt poDiffs iPatt =
     fold_option
       (\<lambda>d hd. case bv_test d iPatt of None \<Rightarrow> None | Some b \<Rightarrow> Some (hd + (if b then 1 else 0)))
       poDiffs 0"

text \<open>
  The body of the loop over the candidates of one node in \<open>BatchErrEst::PruneLacsWithSim\<close>.
  The state is \<open>nodePatt\<close> and \<open>runMin\<close>; the result is \<open>maxErrSim\<close>, which
  \<open>SetErr(static_cast<double>(maxErrSim))\<close> stores on the candidate.
\<close>

definition ScoreLac ::
  "METR_TYPE \<Rightarrow> bool \<Rightarrow> int \<Rightarrow> Abc_Ntk \<Rightarrow> Simulator \<Rightarrow> BitVect list \<Rightarrow> int list \<Rightarrow> BitVect list \<Rightarrow> nat \<Rightarrow>
     LAC \<Rightarrow> BitVect \<times> int \<Rightarrow> (int \<times> BitVect \<times> int) option" where
  "ScoreLac metrType useEnum errUppBound0 appNet appSmlt bdPosWrtNode YAcc accPos nFramePrune pLac st =
     (case SimSop appSmlt (divs pLac) (sop pLac) (fst st) of
        None \<Rightarrow> None
      | Some nodePatt \<Rightarrow>
     (case bv_xor nodePatt (dat appSmlt (targId pLac)) of
        None \<Rightarrow> None
      | Some nodeChange \<Rightarrow>
     (case TempPos appNet appSmlt nodeChange bdPosWrtNode of
        None \<Rightarrow> None
      | Some tempPos \<Rightarrow>
          if metrType = MAXED then
            (case MaxErrSim
                (\<lambda>iPatt. case GetValue tempPos iPatt of
                     None \<Rightarrow> None
                   | Some YNew \<Rightarrow> Some (abs (YNew - YAcc ! iPatt)))
                (if useEnum then snd st else errUppBound0) [0..<nFramePrune] 0 of
               None \<Rightarrow> None
             | Some maxErrSim \<Rightarrow>
                 Some (maxErrSim, nodeChange, if useEnum then min (snd st) maxErrSim else snd st))
          else if metrType = MAXHD then
            (case fold_option
                (\<lambda>iPo poDiffs.
                   if \<not> iPo < length accPos then None
                   else case bv_xor (tempPos ! iPo) (accPos ! iPo) of
                       None \<Rightarrow> None
                     | Some d \<Rightarrow> Some (poDiffs @ [d]))
                [0..<length (vPos appNet)] [] of
               None \<Rightarrow> None
             | Some poDiffs \<Rightarrow>
                 (case MaxErrSim (HammingAt poDiffs)
                     (if useEnum then snd st else errUppBound0) [0..<nFramePrune] 0 of
                    None \<Rightarrow> None
                  | Some maxErrSim \<Rightarrow>
                      Some (maxErrSim, nodeChange, if useEnum then min (snd st) maxErrSim else snd st)))
          else None)))"

text \<open>
  The reference outputs of the accurate network and the simulated approximate network: from
  the simulator of the accurate network when it has \<open>nFramePrune\<close> patterns, from a fresh
  simulation of both networks with the same seed otherwise.
\<close>

definition PrepareSim ::
  "(nat \<Rightarrow> nat \<Rightarrow> nat \<Rightarrow> nat \<Rightarrow> bool) \<Rightarrow> METR_TYPE \<Rightarrow> nat \<Rightarrow> nat \<Rightarrow> Abc_Ntk \<Rightarrow> Simulator \<Rightarrow> Abc_Ntk \<Rightarrow> nat \<Rightarrow> DISTR_TYPE \<Rightarrow>
     (Simulator \<times> int list \<times> BitVect list) option" where
  "PrepareSim rnd metrType seed0 nFrame0 accNet acc_smlt appNet nFramePrune distrType0 =
     (case Simulator_new appNet seed0 nFramePrune distrType0 of
        None \<Rightarrow> None
      | Some appSmlt0 \<Rightarrow>
          if nFramePrune = nFrame0 then
            (case GenInpFromOthSmlt appNet appSmlt0 accNet acc_smlt of
               None \<Rightarrow> None
             | Some appSmlt1 \<Rightarrow>
            (case UpdNodeAndPoPatts appNet appSmlt1 of
               None \<Rightarrow> None
             | Some appSmlt \<Rightarrow>
                 if metrType = MAXED then
                   (case fold_option
                       (\<lambda>iPatt YAcc. case GetOutput accNet acc_smlt iPatt of
                            None \<Rightarrow> None
                          | Some y \<Rightarrow> Some (YAcc @ [y]))
                       [0..<nFramePrune] [] of
                      None \<Rightarrow> None
                    | Some YAcc \<Rightarrow> Some (appSmlt, YAcc, replicate (length (vPos appNet)) []))
                 else if metrType = MAXHD then
                   Some (appSmlt, replicate nFramePrune 0,
                     map (\<lambda>iPo. dat acc_smlt (vPos accNet ! iPo)) [0..<length (vPos appNet)])
                 else Some (appSmlt, replicate nFramePrune 0, replicate (length (vPos appNet)) [])))
          else
            (case Simulator_new accNet seed0 nFramePrune distrType0 of
               None \<Rightarrow> None
             | Some accSmltFewPatt0 \<Rightarrow>
            (case LogicSim rnd accNet accSmltFewPatt0 of
               None \<Rightarrow> None
             | Some accSmltFewPatt \<Rightarrow>
            (case LogicSim rnd appNet appSmlt0 of
               None \<Rightarrow> None
             | Some appSmlt \<Rightarrow>
                 if metrType = MAXED then
                   (case fold_option
                       (\<lambda>iPatt YAcc. case GetOutput accNet accSmltFewPatt iPatt of
                            None \<Rightarrow> None
                          | Some y \<Rightarrow> Some (YAcc @ [y]))
                       [0..<nFramePrune] [] of
                      None \<Rightarrow> None
                    | Some YAcc \<Rightarrow> Some (appSmlt, YAcc, replicate (length (vPos appNet)) []))
                 else if metrType = MAXHD then
                   Some (appSmlt, replicate nFramePrune 0,
                     map (\<lambda>iPo. take nFramePrune (dat accSmltFewPatt (vPos accNet ! iPo))
                                  @ replicate (nFramePrune - length (dat accSmltFewPatt (vPos accNet ! iPo))) False)
                       [0..<length (vPos appNet)])
                 else Some (appSmlt, replicate nFramePrune 0, replicate (length (vPos appNet)) [])))))"

text \<open>
  \<open>BatchErrEst::PruneLacsWithSim\<close>. The candidates are shared pointers: \<open>node2Lacs\<close> groups
  the positions of \<open>pLacs\<close> by target (\<open>LACMan::RegroupLACsByNode\<close>), and \<open>SetErr\<close> writes
  through them. The loop state is the simulator of the approximate network, \<open>nodePatt\<close>,
  \<open>runMin\<close> and the candidates.
\<close>

definition RegroupLACsByNode :: "LAC list \<Rightarrow> nat \<Rightarrow> nat list" where
  "RegroupLACsByNode pLacs nodeId = filter (\<lambda>k. targId (pLacs ! k) = nodeId) [0..<length pLacs]"

definition PruneLacsWithSim ::
  "(nat \<Rightarrow> nat \<Rightarrow> nat \<Rightarrow> nat \<Rightarrow> bool) \<Rightarrow> METR_TYPE \<Rightarrow> nat \<Rightarrow> nat \<Rightarrow> LAC list \<Rightarrow> Abc_Ntk \<Rightarrow> Simulator \<Rightarrow> Abc_Ntk \<Rightarrow> int \<Rightarrow> nat \<Rightarrow>
     DISTR_TYPE \<Rightarrow> LAC list option" where
  "PruneLacsWithSim rnd metrType seed0 nFrame0 pLacs accNet acc_smlt appNet errUppBound0 nFramePrune0 distrType0 =
     (let node2Lacs = RegroupLACsByNode pLacs
      in if \<not> IsPIOSame accNet appNet then None
         else if distrType0 = ENUM \<and> \<not> length (vPis appNet) < 30 then None
         else
           let nFramePrune = (if distrType0 = ENUM then 2 ^ length (vPis appNet) else nFramePrune0)
           in case PrepareSim rnd metrType seed0 nFrame0 accNet acc_smlt appNet nFramePrune distrType0 of
               None \<Rightarrow> None
             | Some (appSmlt0, YAcc, accPos) \<Rightarrow>
           (case CalcTopoOrd appNet of
               None \<Rightarrow> None
             | Some topoNodes \<Rightarrow>
           (case fold_option
               (\<lambda>iNode (appSmlt, nodePatt, runMin, lacs).
                  if node2Lacs (topoNodes ! iNode) = [] then Some (appSmlt, nodePatt, runMin, lacs)
                  else case CalcBoolDiff appNet appSmlt topoNodes iNode of
                      None \<Rightarrow> None
                    | Some (appSmlt1, bdPosWrtNode) \<Rightarrow>
                        fold_option
                          (\<lambda>k (appSmlt2, nodePatt2, runMin2, lacs2).
                             case ScoreLac metrType (distrType0 = ENUM) errUppBound0 appNet appSmlt2
                                    bdPosWrtNode YAcc accPos nFramePrune (lacs2 ! k) (nodePatt2, runMin2) of
                                 None \<Rightarrow> None
                               | Some (maxErrSim, nodePatt3, runMin3) \<Rightarrow>
                                   Some (appSmlt2, nodePatt3, runMin3,
                                         lacs2[k := (lacs2 ! k)\<lparr>err := of_int maxErrSim\<rparr>]))
                          (node2Lacs (topoNodes ! iNode)) (appSmlt1, nodePatt, runMin, lacs))
               [0..<length topoNodes] (appSmlt0, replicate nFramePrune False, errUppBound0, pLacs) of
               None \<Rightarrow> None
             | Some (appSmlt, nodePatt, runMin, lacs) \<Rightarrow>
                 Some (RemLargeErrLacs (of_int errUppBound0) lacs))))"

text \<open>\<open>BatchErrEst::CompLacErrsBySimAndPruneBadLacs\<close>: the rough pass, then the fine pass.\<close>

definition ROUGH_SIM_FRAME :: nat where
  "ROUGH_SIM_FRAME = 1024"

definition CompLacErrsBySimAndPruneBadLacs ::
  "(nat \<Rightarrow> nat \<Rightarrow> nat \<Rightarrow> nat \<Rightarrow> bool) \<Rightarrow> METR_TYPE \<Rightarrow> nat \<Rightarrow> nat \<Rightarrow> LAC list \<Rightarrow> Abc_Ntk \<Rightarrow> Simulator \<Rightarrow> Abc_Ntk \<Rightarrow> int \<Rightarrow>
     LAC list option" where
  "CompLacErrsBySimAndPruneBadLacs rnd metrType seed0 nFrame0 pLacs accNet accSmlt appNet errUppBound0 =
     (case PruneLacsWithSim rnd metrType seed0 nFrame0 pLacs accNet accSmlt appNet errUppBound0
             ROUGH_SIM_FRAME UNIF of
        None \<Rightarrow> None
      | Some pLacs1 \<Rightarrow>
          if ROUGH_SIM_FRAME < nFrame0
          then PruneLacsWithSim rnd metrType seed0 nFrame0 pLacs1 accNet accSmlt appNet errUppBound0
                 nFrame0 UNIF
          else Some pLacs1)"


section \<open>The error miter (error.cc)\<close>

text \<open>Decimal digits of a number, as \<open>fmt::format("{}", n)\<close> prints them.\<close>

function dec :: "nat \<Rightarrow> string" where
  "dec n = (if n < 10 then [''0123456789'' ! n] else dec (n div 10) @ [''0123456789'' ! (n mod 10)])"
  by pat_completeness auto
termination
  by (relation "measure (\<lambda>n. n)") auto

declare dec.simps [simp del]

text \<open>
  Modelled from the spec: an empty logic network and the duplication of an object (ABC's
  \<open>Abc_NtkAlloc\<close> behind \<open>NetMan::StartSopNet\<close>, and \<open>Abc_NtkDupObj\<close>, not in the
  repository's files). A logic network starts with an unused entry at ID 0. The duplicate has
  the type and the function of the original, and its name if asked to copy it.
\<close>

definition StartSopNet :: Abc_Ntk where
  "StartSopNet = \<lparr>ObjType = (\<lambda>_. None), vFanins = (\<lambda>_. []), vFanouts = (\<lambda>_. []),
     pData = (\<lambda>_. []), ObjName = (\<lambda>_. []), nObjNumMax = 1, vPis = [], vPos = []\<rparr>"

definition Abc_NtkDupObj :: "Abc_Ntk \<Rightarrow> Abc_Ntk \<Rightarrow> nat \<Rightarrow> bool \<Rightarrow> (Abc_Ntk \<times> nat) option" where
  "Abc_NtkDupObj pNtkNew pNtk pObj fCopyName =
     (case ObjType pNtk pObj of
        None \<Rightarrow> None
      | Some ty \<Rightarrow>
          let (n, newId) = Abc_NtkCreateObj pNtkNew ty
          in Some (n\<lparr>pData := (pData n)(newId := pData pNtk pObj),
                     ObjName := (ObjName n)(newId := (if fCopyName then ObjName pNtk pObj else []))\<rparr>, newId))"

text \<open>\<open>RenameAbcObj\<close> (my_abc.h).\<close>

definition RenameAbcObj :: "Abc_Ntk \<Rightarrow> nat \<Rightarrow> string \<Rightarrow> Abc_Ntk" where
  "RenameAbcObj ntk pObj name = ntk\<lparr>ObjName := (ObjName ntk)(pObj := name)\<rparr>"

text \<open>\<open>ComparePi\<close> and \<open>ComparePo\<close> (my_abc.h).\<close>

definition ComparePi :: "Abc_Ntk \<Rightarrow> Abc_Ntk \<Rightarrow> bool \<Rightarrow> bool" where
  "ComparePi net0 net1 allowExtraPi \<longleftrightarrow>
     (if allowExtraPi then length (vPis net0) \<le> length (vPis net1)
      else length (vPis net0) = length (vPis net1)) \<and>
     list_all (\<lambda>i. ObjName net0 (vPis net0 ! i) = ObjName net1 (vPis net1 ! i)) [0..<length (vPis net0)]"

definition ComparePo :: "Abc_Ntk \<Rightarrow> Abc_Ntk \<Rightarrow> bool" where
  "ComparePo net0 net1 \<longleftrightarrow>
     length (vPos net0) = length (vPos net1) \<and>
     list_all (\<lambda>i. ObjName net0 (vPos net0 ! i) = ObjName net1 (vPos net1 ! i)) [0..<length (vPos net0)]"

text \<open>
  The state of \<open>ErrMan::BuildErrMit\<close>: the miter under construction, the \<open>pCopy\<close> field of
  the objects of the network being copied, and \<open>name2PI\<close>.
\<close>

type_synonym copy_state = "Abc_Ntk \<times> (nat \<rightharpoonup> nat)"

text \<open>
  The two loops over \<open>Abc_NtkForEachNode\<close>: every node, in ID order, is duplicated and
  renamed with the suffix; then the duplicate of every node gets the duplicates of its
  fanins, in order. A fanin without a duplicate is a null pointer in the source.
\<close>

definition dup_nodes :: "Abc_Ntk \<Rightarrow> string \<Rightarrow> copy_state \<Rightarrow> copy_state option" where
  "dup_nodes pNtk suffix st =
     fold_option
       (\<lambda>pObj (errMit, pCopy).
          if \<not> IsNode pNtk pObj then Some (errMit, pCopy)
          else case Abc_NtkDupObj errMit pNtk pObj False of
              None \<Rightarrow> None
            | Some (errMit1, newId) \<Rightarrow>
                Some (RenameAbcObj errMit1 newId (ObjName pNtk pObj @ suffix), pCopy(pObj \<mapsto> newId)))
       [0..<nObjNumMax pNtk] st"

definition link_nodes :: "Abc_Ntk \<Rightarrow> copy_state \<Rightarrow> copy_state option" where
  "link_nodes pNtk st =
     fold_option
       (\<lambda>pObj (errMit, pCopy).
          if \<not> IsNode pNtk pObj then Some (errMit, pCopy)
          else case pCopy pObj of
              None \<Rightarrow> None
            | Some pObjCopy \<Rightarrow>
                fold_option
                  (\<lambda>pFanin (errMit1, pCopy1).
                     case pCopy1 pFanin of
                       None \<Rightarrow> None
                     | Some pFaninCopy \<Rightarrow> Some (Abc_ObjAddFanin errMit1 pObjCopy pFaninCopy, pCopy1))
                  (vFanins pNtk pObj) (errMit, pCopy))
       [0..<nObjNumMax pNtk] st"

text \<open>\<open>Abc_ObjChild0Copy\<close> of a primary output: the duplicate of its driver.\<close>

definition Abc_ObjChild0Copy :: "Abc_Ntk \<Rightarrow> (nat \<rightharpoonup> nat) \<Rightarrow> nat \<Rightarrow> nat option" where
  "Abc_ObjChild0Copy pNtk pCopy pObj =
     (case vFanins pNtk pObj of [] \<Rightarrow> None | pDriver # _ \<Rightarrow> pCopy pDriver)"

text \<open>
  The primary inputs of the accurate network are duplicated under their names and entered in
  \<open>name2PI\<close>; a primary input of the approximate network whose name is in \<open>name2PI\<close> shares
  that duplicate, another one (a control signal) gets a duplicate of its own.
\<close>

definition dup_acc_pis :: "Abc_Ntk \<Rightarrow> (Abc_Ntk \<times> (nat \<rightharpoonup> nat) \<times> (string \<rightharpoonup> nat)) option" where
  "dup_acc_pis accNet =
     fold_option
       (\<lambda>pObj (errMit, pCopy, name2PI).
          case Abc_NtkDupObj errMit accNet pObj False of
            None \<Rightarrow> None
          | Some (errMit1, newId) \<Rightarrow>
              Some (RenameAbcObj errMit1 newId (ObjName accNet pObj), pCopy(pObj \<mapsto> newId),
                    name2PI(ObjName accNet pObj \<mapsto> newId)))
       (vPis accNet) (StartSopNet, Map.empty, Map.empty)"

definition dup_app_pis ::
  "Abc_Ntk \<Rightarrow> Abc_Ntk \<Rightarrow> (string \<rightharpoonup> nat) \<Rightarrow> (Abc_Ntk \<times> (nat \<rightharpoonup> nat) \<times> (string \<rightharpoonup> nat)) option" where
  "dup_app_pis appNet errMit0 name2PI0 =
     fold_option
       (\<lambda>pObj (errMit, pCopy, name2PI).
          case name2PI (ObjName appNet pObj) of
            Some newId \<Rightarrow> Some (errMit, pCopy(pObj \<mapsto> newId), name2PI)
          | None \<Rightarrow>
              (case Abc_NtkDupObj errMit appNet pObj False of
                 None \<Rightarrow> None
               | Some (errMit1, newId) \<Rightarrow>
                   Some (RenameAbcObj errMit1 newId (ObjName appNet pObj), pCopy(pObj \<mapsto> newId),
                         name2PI(ObjName appNet pObj \<mapsto> newId))))
       (vPis appNet) (errMit0, Map.empty, name2PI0)"

text \<open>
  The first \<open>nPo\<close> inputs of the deviation network are linked to the drivers of the primary
  outputs of the accurate network, the next \<open>nPo\<close> to those of the approximate network.
\<close>

definition link_dev_pis ::
  "Abc_Ntk \<Rightarrow> (nat \<rightharpoonup> nat) \<Rightarrow> Abc_Ntk \<Rightarrow> (nat \<rightharpoonup> nat) \<Rightarrow> Abc_Ntk \<Rightarrow> (nat \<rightharpoonup> nat)" where
  "link_dev_pis accNet accCopy appNet appCopy devNet =
     (let nPo = length (vPos accNet);
          devCopy1 = fold (\<lambda>i pCopy. pCopy(vPis devNet ! i := Abc_ObjChild0Copy accNet accCopy (vPos accNet ! i)))
                       [0..<nPo] Map.empty
      in fold (\<lambda>i pCopy. pCopy(vPis devNet ! (i + nPo) := Abc_ObjChild0Copy appNet appCopy (vPos appNet ! i)))
           [0..<nPo] devCopy1)"

text \<open>The reference-error inputs of the deviation network become inputs of the miter.\<close>

definition dup_ref_err :: "Abc_Ntk \<Rightarrow> nat \<Rightarrow> copy_state \<Rightarrow> copy_state option" where
  "dup_ref_err devNet nPo st =
     fold_option
       (\<lambda>i (errMit, pCopy).
          let pRefErrI = vPis devNet ! (i + nPo * 2)
          in case Abc_NtkDupObj errMit devNet pRefErrI False of
              None \<Rightarrow> None
            | Some (errMit1, newId) \<Rightarrow>
                if ObjName devNet pRefErrI \<noteq> ''ref_err['' @ dec i @ '']'' then None
                else Some (RenameAbcObj errMit1 newId (ObjName devNet pRefErrI), pCopy(pRefErrI \<mapsto> newId)))
       [0..<length (vPis devNet) - nPo * 2] st"

text \<open>The primary outputs of the deviation network are the primary outputs of the miter.\<close>

definition dup_pos :: "Abc_Ntk \<Rightarrow> copy_state \<Rightarrow> copy_state option" where
  "dup_pos devNet st =
     fold_option
       (\<lambda>pObj (errMit, pCopy).
          case Abc_NtkDupObj errMit devNet pObj True of
            None \<Rightarrow> None
          | Some (errMit1, newId) \<Rightarrow> Some (errMit1, pCopy(pObj \<mapsto> newId)))
       (vPos devNet) st"

definition link_pos :: "Abc_Ntk \<Rightarrow> copy_state \<Rightarrow> copy_state option" where
  "link_pos devNet st =
     fold_option
       (\<lambda>pObj (errMit, pCopy).
          case (pCopy pObj, Abc_ObjChild0Copy devNet pCopy pObj) of
            (Some pObjCopy, Some pDriverCopy) \<Rightarrow> Some (Abc_ObjAddFanin errMit pObjCopy pDriverCopy, pCopy)
          | _ \<Rightarrow> None)
       (vPos devNet) st"

text \<open>\<open>ErrMan::BuildErrMit\<close>, with its assertions.\<close>

definition copy_acc_app ::
  "Abc_Ntk \<Rightarrow> Abc_Ntk \<Rightarrow> (Abc_Ntk \<times> (nat \<rightharpoonup> nat) \<times> (nat \<rightharpoonup> nat)) option" where
  "copy_acc_app accNet appNet =
     (case dup_acc_pis accNet of
        None \<Rightarrow> None
      | Some (errMit1, accCopy1, name2PI1) \<Rightarrow>
     (case dup_nodes accNet ''_acc'' (errMit1, accCopy1) of
        None \<Rightarrow> None
      | Some st2 \<Rightarrow>
     (case link_nodes accNet st2 of
        None \<Rightarrow> None
      | Some (errMit3, accCopy) \<Rightarrow>
     (case dup_app_pis appNet errMit3 name2PI1 of
        None \<Rightarrow> None
      | Some (errMit4, appCopy4, name2PI4) \<Rightarrow>
     (case dup_nodes appNet ''_app'' (errMit4, appCopy4) of
        None \<Rightarrow> None
      | Some st5 \<Rightarrow>
     (case link_nodes appNet st5 of
        None \<Rightarrow> None
      | Some (errMit6, appCopy) \<Rightarrow> Some (errMit6, accCopy, appCopy)))))))"

definition copy_dev ::
  "Abc_Ntk \<Rightarrow> (nat \<rightharpoonup> nat) \<Rightarrow> Abc_Ntk \<Rightarrow> (nat \<rightharpoonup> nat) \<Rightarrow> Abc_Ntk \<Rightarrow> Abc_Ntk \<Rightarrow> Abc_Ntk option" where
  "copy_dev accNet accCopy appNet appCopy devNet errMit6 =
     (case dup_ref_err devNet (length (vPos accNet))
             (errMit6, link_dev_pis accNet accCopy appNet appCopy devNet) of
        None \<Rightarrow> None
      | Some st7 \<Rightarrow>
     (case dup_nodes devNet ''_mit'' st7 of
        None \<Rightarrow> None
      | Some st8 \<Rightarrow>
     (case link_nodes devNet st8 of
        None \<Rightarrow> None
      | Some st9 \<Rightarrow>
     (case dup_pos devNet st9 of
        None \<Rightarrow> None
      | Some st10 \<Rightarrow>
     (case link_pos devNet st10 of
        None \<Rightarrow> None
      | Some (errMit, pCopy) \<Rightarrow> Some errMit)))))"

definition BuildErrMit :: "Abc_Ntk \<Rightarrow> Abc_Ntk \<Rightarrow> Abc_Ntk \<Rightarrow> Abc_Ntk option" where
  "BuildErrMit accNet appNet devNet =
     (if \<not> (ComparePi accNet appNet True \<and> ComparePo accNet appNet) then None
      else case copy_acc_app accNet appNet of
          None \<Rightarrow> None
        | Some (errMit6, accCopy, appCopy) \<Rightarrow>
            let nPo = length (vPos accNet);
                nDevPi = length (vPis devNet)
            in if length (vPos appNet) \<noteq> nPo then None
               else if \<not> (nDevPi = nPo * 3 \<or> nDevPi = nPo * 2 + floorlog 2 nPo \<or> nDevPi = nPo * 2)
               then None
               else if \<not> 1 \<le> length (vPos devNet) then None
               else copy_dev accNet accCopy appNet appCopy devNet errMit6)"


section \<open>Candidate generation (lac.cc)\<close>

text \<open>
  What the flow takes from outside the repository's files: the pseudo-random generator,
  \<open>std::sort\<close>, the checks, levels and commands of ABC, the SAT solver on the error miter
  (which \<open>ErrMan::BuildSatSolver_Abc\<close> hands to ABC for strashing and CNF generation, and to
  CryptoMiniSat) with the simulation of that strashed miter on the counterexamples, and the
  parts of the repository that no claim below depends on (\<open>NetMan::GetSizeGain\<close>,
  \<open>NetMan::Sweep\<close>, \<open>LACMan::GenResubLACs\<close>).
\<close>

datatype lbool = l_True | l_False | l_Undef

record Collab =
  rnd :: "nat \<Rightarrow> nat \<Rightarrow> nat \<Rightarrow> nat \<Rightarrow> bool"
  std_sort :: "(LAC \<Rightarrow> LAC \<Rightarrow> bool) \<Rightarrow> LAC list \<Rightarrow> LAC list"
  Abc_NtkIsAcyclic :: "Abc_Ntk \<Rightarrow> bool"
  Abc_NtkDoCheck :: "Abc_Ntk \<Rightarrow> bool"
  Abc_NtkLevel :: "Abc_Ntk \<Rightarrow> nat"
  Abc_ObjLevel :: "Abc_Ntk \<Rightarrow> nat \<Rightarrow> nat"
  Sweep :: "Abc_Ntk \<Rightarrow> Abc_Ntk"
  Comm :: "string \<Rightarrow> Abc_Ntk \<Rightarrow> Abc_Ntk"
  GetSizeGain :: "Abc_Ntk \<Rightarrow> nat \<Rightarrow> nat list \<Rightarrow> int"
  GenResubLACs :: "Abc_Ntk \<Rightarrow> LAC list"
  FastCheck :: "Abc_Ntk \<Rightarrow> BitVect list \<Rightarrow> bool"
  SolveSat :: "Abc_Ntk \<Rightarrow> lbool \<times> int list"

text \<open>The constructor of \<open>LAC\<close>: both errors start at \<open>DBL_MAX\<close>.\<close>

definition LAC_new :: "nat \<Rightarrow> int \<Rightarrow> nat list \<Rightarrow> string \<Rightarrow> LAC" where
  "LAC_new targ_node_id gain divs0 sop0 =
     \<lparr>targId = targ_node_id, sizeGain = gain, err = DBL_MAX, err2 = DBL_MAX, divs = divs0, sop = sop0\<rparr>"

text \<open>\<open>LAC::ToStrShort\<close>: \<open>fmt::format("n{}d{}f{}", targId, fmt::join(divs, ","), sop)\<close>.\<close>

fun join_comma :: "string list \<Rightarrow> string" where
  "join_comma [] = []"
| "join_comma [s] = s"
| "join_comma (s # t # ss) = s @ '','' @ join_comma (t # ss)"

definition ToStrShort :: "LAC \<Rightarrow> string" where
  "ToStrShort pLac = ''n'' @ dec (targId pLac) @ ''d'' @ join_comma (map dec (divs pLac)) @ ''f'' @ sop pLac"

text \<open>\<open>LACMan::GenConstLACs\<close>, also the constant special case of \<open>LACMan::GenSasimiLACs\<close>.\<close>

definition GenConstLACs :: "Collab \<Rightarrow> Abc_Ntk \<Rightarrow> LAC list" where
  "GenConstLACs env net =
     concat (map (\<lambda>nodeId.
        if IsNode net nodeId \<and> \<not> IsConst net nodeId
        then [LAC_new nodeId (GetSizeGain env net nodeId []) [] sop_const1,
              LAC_new nodeId (GetSizeGain env net nodeId []) [] sop_const0]
        else []) [0..<nObjNumMax net])"

text \<open>
  \<open>LACMan::GenSasimiLACs\<close>. The loop over the substitutes of one target, with its counter
  \<open>lacNum\<close> and its \<open>break\<close>:
\<close>

fun SasimiLACsOfTarget :: "Collab \<Rightarrow> Abc_Ntk \<Rightarrow> int \<Rightarrow> nat \<Rightarrow> nat list \<Rightarrow> int \<Rightarrow> LAC list" where
  "SasimiLACsOfTarget env net MAX_LAC_PER_NODE targ [] lacNum = []"
| "SasimiLACsOfTarget env net MAX_LAC_PER_NODE targ (subId # rest) lacNum =
     (if \<not> IsObj net subId \<or> IsObjPo net subId \<or> IsConst net subId \<or> targ = subId
      then SasimiLACsOfTarget env net MAX_LAC_PER_NODE targ rest lacNum
      else if Abc_ObjLevel env net subId < Abc_ObjLevel env net targ
      then LAC_new targ (GetSizeGain env net targ [subId]) [subId] sop_buf
           # LAC_new targ (GetSizeGain env net targ [subId]) [subId] sop_inv
           # (if lacNum + 2 \<ge> MAX_LAC_PER_NODE then []
              else SasimiLACsOfTarget env net MAX_LAC_PER_NODE targ rest (lacNum + 2))
      else SasimiLACsOfTarget env net MAX_LAC_PER_NODE targ rest lacNum)"

text \<open>
  \<open>std::max(1, static_cast<int>(maxCandResub / targIds.size()))\<close>: the division is done in
  \<open>size_t\<close> (64 bits, unsigned), its result cast to \<open>int\<close> (32 bits).
\<close>

definition MaxLacPerNode :: "int \<Rightarrow> nat \<Rightarrow> int" where
  "MaxLacPerNode maxCandResub nTarg =
     max 1 ((((maxCandResub mod 2 ^ 64) div int nTarg) + 2 ^ 31) mod 2 ^ 32 - 2 ^ 31)"

definition SasimiTargets :: "Abc_Ntk \<Rightarrow> nat list" where
  "SasimiTargets net =
     filter (\<lambda>nodeId. IsNode net nodeId \<and> \<not> IsConst net nodeId \<and> GetFaninNum net nodeId > 1)
       [0..<nObjNumMax net]"

definition GenSasimiLACs :: "Collab \<Rightarrow> Abc_Ntk \<Rightarrow> int \<Rightarrow> bool \<Rightarrow> LAC list" where
  "GenSasimiLACs env net maxCandResub inclConst =
     (let pLacs = (if inclConst then GenConstLACs env net else []);
          targIds = SasimiTargets net
      in if targIds = [] then pLacs
         else pLacs @ concat (map (\<lambda>targ.
                SasimiLACsOfTarget env net (MaxLacPerNode maxCandResub (length targIds)) targ
                  [0..<nObjNumMax net] 0) targIds))"

text \<open>\<open>LACMan::RemLacsFromBlackList\<close>.\<close>

definition RemLacsFromBlackList :: "string set \<Rightarrow> LAC list \<Rightarrow> LAC list" where
  "RemLacsFromBlackList blackList pLacs =
     (if blackList = {} then pLacs else filter (\<lambda>pLac. ToStrShort pLac \<notin> blackList) pLacs)"


section \<open>The synthesis flow (als.cc)\<close>

datatype LAC_TYPE = CONSTANT | SASIMI | RESUB

record ALSOpt =
  options_metrType :: METR_TYPE
  options_seed :: nat
  options_nFrame :: nat
  options_maxCandLacs :: int
  options_errUppBound :: int

text \<open>
  The state that \<open>ALSMan::SimplifyWithSingleLac\<close> works on: its reference arguments
  \<open>appNet\<close> and \<open>round\<close>, the static counter \<open>countExNum\<close> and the simulator of the
  accurate network \<open>pAccSmlt\<close>, which holds the counterexamples. One pass of
  \<open>ALSMan::ApplyMultValidLacs\<close> adds the blacklist (a local variable of
  \<open>SimplifyWithSingleLac\<close>) and its own local variables.
\<close>

record flow_state =
  appNet :: Abc_Ntk
  round_no :: int
  countExNum :: nat
  pAccSmlt :: Simulator

record pass_state = flow_state +
  lacBlackList :: "string set"
  counterExPiPatts :: "BitVect list"
  frozTargNodes :: "nat set"
  existValidLac :: bool

text \<open>What \<open>ApplyMultValidLacs\<close> prints for a candidate: the way it left the loop body.\<close>

datatype outcome =
    TargetFrozen | TargetDangling | NetworkCyclic | FastCheckExceeds
  | Applied | ExceedsBound | SolverUndefined

text \<open>\<open>AbcMan::GetArea\<close> on an SOP network: the nodes that are not constants.\<close>

definition GetArea :: "Abc_Ntk \<Rightarrow> nat" where
  "GetArea ntk = length (filter (\<lambda>i. IsNode ntk i \<and> \<not> Abc_NodeIsConst ntk i) [0..<nObjNumMax ntk])"

text \<open>
  The body of the loop of \<open>ApplyMultValidLacs\<close> for the candidate \<open>pLac\<close>. \<open>devNet\<close> is
  \<open>pDevCompNetEmbErr\<close>. \<open>GetFanoutNum(targId)\<close> reads the object behind the identifier, so
  the run aborts when the network has no such object.
\<close>

definition TryLac ::
  "Collab \<Rightarrow> ALSOpt \<Rightarrow> Abc_Ntk \<Rightarrow> Abc_Ntk \<Rightarrow> pass_state \<Rightarrow> LAC \<Rightarrow> (pass_state \<times> outcome) option" where
  "TryLac env opts accNet devNet st pLac =
     (if targId pLac \<in> frozTargNodes st then Some (st, TargetFrozen)
      else if \<not> IsObj (appNet st) (targId pLac) then None
      else if GetFanoutNum (appNet st) (targId pLac) = 0 then Some (st, TargetDangling)
      else case TempApplyLac (appNet st) pLac of
          None \<Rightarrow> None
        | Some (net1, replTrace, ssId) \<Rightarrow>
            if \<not> Abc_NtkIsAcyclic env net1 then
              (case RecovNet net1 [replTrace] of
                 None \<Rightarrow> None
               | Some net2 \<Rightarrow> Some (st\<lparr>appNet := net2\<rparr>, NetworkCyclic))
            else if \<not> ComparePo accNet net1 \<or> \<not> ComparePi accNet net1 True then None
            else case BuildErrMit accNet net1 devNet of
                None \<Rightarrow> None
              | Some errMit \<Rightarrow>
                  if length (vPos errMit) \<noteq> 1 \<or> \<not> ComparePi accNet errMit False then None
                  else if counterExPiPatts st ! 0 \<noteq> [] \<and> FastCheck env errMit (counterExPiPatts st) then
                    (case RecovNet net1 [replTrace] of
                       None \<Rightarrow> None
                     | Some net2 \<Rightarrow> Some (st\<lparr>appNet := net2\<rparr>, FastCheckExceeds))
                  else case SolveSat env errMit of
                      (l_False, counterEx) \<Rightarrow>
                        Some (st\<lparr>appNet := net1, existValidLac := True,
                                 frozTargNodes := insert (targId pLac) (frozTargNodes st)\<rparr>, Applied)
                    | (l_True, counterEx) \<Rightarrow>
                        (case ReplInp accNet (pAccSmlt st) (countExNum st) counterEx of
                           None \<Rightarrow> None
                         | Some smlt \<Rightarrow>
                             if \<exists>v\<in>set counterEx. \<not> (v = 0 \<or> v = 1) then None
                             else case RecovNet net1 [replTrace] of
                                 None \<Rightarrow> None
                               | Some net2 \<Rightarrow>
                                   Some (st\<lparr>appNet := net2, pAccSmlt := smlt,
                                            countExNum := (if Suc (countExNum st) \<ge> options_nFrame opts then 0
                                                           else Suc (countExNum st)),
                                            counterExPiPatts :=
                                              map (\<lambda>iPi. counterExPiPatts st ! iPi @ [counterEx ! iPi = 1])
                                                [0..<length (vPis accNet)]\<rparr>, ExceedsBound))
                    | (l_Undef, counterEx) \<Rightarrow>
                        (case RecovNet net1 [replTrace] of
                           None \<Rightarrow> None
                         | Some net2 \<Rightarrow>
                             Some (st\<lparr>appNet := net2,
                                      lacBlackList := insert (ToStrShort pLac) (lacBlackList st)\<rparr>,
                                   SolverUndefined)))"

text \<open>The loop over the candidates, in order, with what was printed for each.\<close>

fun TryLacs ::
  "Collab \<Rightarrow> ALSOpt \<Rightarrow> Abc_Ntk \<Rightarrow> Abc_Ntk \<Rightarrow> LAC list \<Rightarrow> pass_state \<Rightarrow> (pass_state \<times> outcome list) option" where
  "TryLacs env opts accNet devNet [] st = Some (st, [])"
| "TryLacs env opts accNet devNet (pLac # pLacs) st =
     (case TryLac env opts accNet devNet st pLac of
        None \<Rightarrow> None
      | Some (st1, out) \<Rightarrow>
          (case TryLacs env opts accNet devNet pLacs st1 of
             None \<Rightarrow> None
           | Some (st2, outs) \<Rightarrow> Some (st2, out # outs)))"

text \<open>
  \<open>ALSMan::ApplyMultValidLacs\<close>: the result is the flag \<open>existValidLac\<close> with the state; the
  blacklist is passed by reference and returned in the state.
\<close>

definition ApplyMultValidLacs ::
  "Collab \<Rightarrow> ALSOpt \<Rightarrow> Abc_Ntk \<Rightarrow> Abc_Ntk \<Rightarrow> LAC list \<Rightarrow> flow_state \<Rightarrow> string set \<Rightarrow>
     (pass_state \<times> outcome list) option" where
  "ApplyMultValidLacs env opts accNet devNet pLacs fs blackList =
     (if \<not> 0 < length (vPis accNet) then None
      else case TryLacs env opts accNet devNet pLacs
            (flow_state.extend fs
               (pass_state.fields blackList (replicate (length (vPis accNet)) []) {} False)) of
          None \<Rightarrow> None
        | Some (st, outs) \<Rightarrow>
            (case (if counterExPiPatts st ! 0 \<noteq> [] then UpdNodeAndPoPatts accNet (pAccSmlt st)
                   else Some (pAccSmlt st)) of
               None \<Rightarrow> None
             | Some smlt \<Rightarrow>
                 if \<not> Abc_NtkDoCheck env (Sweep env (appNet st)) then None
                 else Some (st\<lparr>pAccSmlt := smlt, appNet := Sweep env (appNet st)\<rparr>, outs)))"


text \<open>
  One round of \<open>ALSMan::SimplifyWithSingleLac\<close> up to the pass: the candidates are
  generated, the blacklisted ones removed, the errors estimated and the large ones pruned;
  without a candidate left the loop is left (\<open>None\<close>), otherwise the best \<open>TOP_K_LAC\<close>
  candidates are passed to \<open>ApplyMultValidLacs\<close>.
\<close>

definition GenLACs :: "Collab \<Rightarrow> ALSOpt \<Rightarrow> LAC_TYPE \<Rightarrow> bool \<Rightarrow> Abc_Ntk \<Rightarrow> LAC list" where
  "GenLACs env opts lacType inclConst net =
     (case lacType of
        CONSTANT \<Rightarrow> GenConstLACs env net
      | SASIMI \<Rightarrow> GenSasimiLACs env net (options_maxCandLacs opts) inclConst
      | RESUB \<Rightarrow> GenResubLACs env net)"

definition TOP_K_LAC :: int where
  "TOP_K_LAC = 100"

definition TopCandidates ::
  "Collab \<Rightarrow> ALSOpt \<Rightarrow> LAC_TYPE \<Rightarrow> bool \<Rightarrow> Abc_Ntk \<Rightarrow> flow_state \<Rightarrow> string set \<Rightarrow> LAC list option option" where
  "TopCandidates env opts lacType inclConst accNet fs blackList =
     (case CompLacErrsBySimAndPruneBadLacs (rnd env) (options_metrType opts) (options_seed opts)
             (options_nFrame opts)
             (RemLacsFromBlackList blackList (GenLACs env opts lacType inclConst (appNet fs)))
             accNet (pAccSmlt fs) (appNet fs) (options_errUppBound opts) of
        None \<Rightarrow> None
      | Some pLacs \<Rightarrow>
          if pLacs = [] then Some None
          else case SortAndKeepTopKLACs (std_sort env) TOP_K_LAC pLacs of
              Inl a \<Rightarrow> None
            | Inr pLacs1 \<Rightarrow> Some (Some pLacs1))"

text \<open>
  The main loop \<open>for (; ; ++round)\<close>. \<open>cands\<close> is the part of the body that produces the
  candidates of a round from the state and the blacklist (\<open>TopCandidates\<close> in
  \<open>SimplifyWithSingleLac\<close> below). The result is the state at the \<open>break\<close> and, for every
  round that reached the pass, the candidates passed, what was printed for each and the state
  after the pass. The assertion on size and depth aborts the run when it fails.
\<close>

function SimplifyLoop ::
  "Collab \<Rightarrow> ALSOpt \<Rightarrow> (flow_state \<Rightarrow> string set \<Rightarrow> LAC list option option) \<Rightarrow> Abc_Ntk \<Rightarrow> Abc_Ntk \<Rightarrow>
     flow_state \<Rightarrow> string set \<Rightarrow> nat \<Rightarrow> nat \<Rightarrow>
     (flow_state \<times> (LAC list \<times> outcome list \<times> pass_state) list) option" where
  "SimplifyLoop env opts cands accNet devNet fs blackList oldSize oldDepth =
     (case cands fs blackList of
        None \<Rightarrow> None
      | Some None \<Rightarrow> Some (fs, [])
      | Some (Some pLacs) \<Rightarrow>
          (case ApplyMultValidLacs env opts accNet devNet pLacs fs blackList of
             None \<Rightarrow> None
           | Some (st, outs) \<Rightarrow>
               if \<not> existValidLac st then Some (flow_state.truncate st, [(pLacs, outs, st)])
               else if \<not> (GetArea (appNet st) < oldSize \<or>
                            (GetArea (appNet st) = oldSize \<and> Abc_NtkLevel env (appNet st) \<le> oldDepth))
               then None
               else if GetArea (appNet st) = oldSize \<and> Abc_NtkLevel env (appNet st) = oldDepth
               then Some (flow_state.truncate st, [(pLacs, outs, st)])
               else case SimplifyLoop env opts cands accNet devNet
                           ((flow_state.truncate st)\<lparr>round_no := round_no st + 1\<rparr>) (lacBlackList st)
                           (GetArea (appNet st)) (Abc_NtkLevel env (appNet st)) of
                   None \<Rightarrow> None
                 | Some (fs1, rounds) \<Rightarrow> Some (fs1, (pLacs, outs, st) # rounds)))"
  by pat_completeness auto
termination
  by (relation "inv_image (less_than <*lex*> less_than)
        (\<lambda>(env, opts, cands, accNet, devNet, fs, blackList, oldSize, oldDepth).
           (oldSize, oldDepth))") auto

declare SimplifyLoop.simps [simp del]

text \<open>\<open>ALSMan::SimplifyWithSingleLac\<close>.\<close>

definition SimplifyWithSingleLac ::
  "Collab \<Rightarrow> ALSOpt \<Rightarrow> LAC_TYPE \<Rightarrow> bool \<Rightarrow> bool \<Rightarrow> Abc_Ntk \<Rightarrow> Abc_Ntk \<Rightarrow> flow_state \<Rightarrow>
     (flow_state \<times> (LAC list \<times> outcome list \<times> pass_state) list) option" where
  "SimplifyWithSingleLac env opts lacType inclConst fSimplify accNet devNet fs =
     (if options_errUppBound opts = 0 then Some (fs, [])
      else case SimplifyLoop env opts (TopCandidates env opts lacType inclConst accNet) accNet devNet fs {}
                  (GetArea (appNet fs)) (Abc_NtkLevel env (appNet fs)) of
          None \<Rightarrow> None
        | Some (fs1, rounds) \<Rightarrow>
            Some (if fSimplify
                  then fs1\<lparr>appNet := Comm env ''st; resyn2rs; ps; resyn2rs; ps; resyn2rs; ps; logic; sop;'' (appNet fs1)\<rparr>
                  else fs1, rounds))"

subsection \<open>The freeze set of a pass\<close>


lemma TryLac_frozen:
  "targId pLac \<in> frozTargNodes st \<Longrightarrow> TryLac env opts accNet devNet st pLac = Some (st, TargetFrozen)"
  by (simp add: TryLac_def)

lemma TryLac_outcome:
  assumes "TryLac env opts accNet devNet st pLac = Some (st1, out)"
  shows "out = TargetFrozen \<longleftrightarrow> targId pLac \<in> frozTargNodes st"
    and "out = Applied \<Longrightarrow> frozTargNodes st1 = insert (targId pLac) (frozTargNodes st)"
    and "out \<noteq> Applied \<Longrightarrow> frozTargNodes st1 = frozTargNodes st"
    and "out = SolverUndefined \<Longrightarrow> lacBlackList st1 = insert (ToStrShort pLac) (lacBlackList st)"
    and "out \<noteq> SolverUndefined \<Longrightarrow> lacBlackList st1 = lacBlackList st"
  using assms unfolding TryLac_def
  by (auto split: if_splits option.splits prod.splits lbool.splits)

lemma TryLac_undefined:
  assumes "TryLac env opts accNet devNet st pLac = Some (st1, SolverUndefined)"
  shows "\<exists>net1 replTrace ssId. TempApplyLac (appNet st) pLac = Some (net1, replTrace, ssId) \<and>
           RecovNet net1 [replTrace] = Some (appNet st1) \<and>
           st1 = st\<lparr>appNet := appNet st1, lacBlackList := insert (ToStrShort pLac) (lacBlackList st)\<rparr>"
  using assms unfolding TryLac_def
  by (auto split: if_splits option.splits prod.splits lbool.splits)


definition committed :: "LAC list \<Rightarrow> outcome list \<Rightarrow> LAC list" where
  "committed pLacs outs = map fst (filter (\<lambda>(pLac, out). out = Applied) (zip pLacs outs))"

lemma committed_Nil [simp]: "committed [] outs = []"
  by (simp add: committed_def)

lemma committed_Cons [simp]:
  "committed (pLac # pLacs) (out # outs) =
     (if out = Applied then pLac # committed pLacs outs else committed pLacs outs)"
  by (simp add: committed_def)

lemma TryLacs_freeze:
  "TryLacs env opts accNet devNet pLacs st = Some (st', outs) \<Longrightarrow>
     length outs = length pLacs \<and>
     frozTargNodes st' = frozTargNodes st \<union> set (map targId (committed pLacs outs)) \<and>
     distinct (map targId (committed pLacs outs)) \<and>
     set (map targId (committed pLacs outs)) \<inter> frozTargNodes st = {} \<and>
     (\<forall>i<length pLacs. targId (pLacs ! i) \<in> frozTargNodes st \<longrightarrow> outs ! i = TargetFrozen) \<and>
     (\<forall>i<length pLacs. \<forall>j<i. outs ! j = Applied \<and> targId (pLacs ! j) = targId (pLacs ! i)
         \<longrightarrow> outs ! i = TargetFrozen)"
proof (induction pLacs arbitrary: st outs)
  case Nil
  then show ?case by simp
next
  case (Cons pLac pLacs)
  from Cons.prems obtain st1 out outs1 where
    step: "TryLac env opts accNet devNet st pLac = Some (st1, out)"
    and rest: "TryLacs env opts accNet devNet pLacs st1 = Some (st', outs1)"
    and outs: "outs = out # outs1"
    by (auto split: option.splits)
  note ih = Cons.IH [OF rest]
  note o = TryLac_outcome [OF step]
  have len: "length outs = length (pLac # pLacs)" using ih outs by simp
  have mono: "frozTargNodes st \<subseteq> frozTargNodes st1"
    using o(2,3) by (cases "out = Applied") auto
  have froz: "frozTargNodes st' = frozTargNodes st \<union> set (map targId (committed (pLac # pLacs) outs))"
    using ih o(2,3) outs by (cases "out = Applied") auto
  have dist: "distinct (map targId (committed (pLac # pLacs) outs))"
    using ih o(2) outs by (cases "out = Applied") auto
  have disj: "set (map targId (committed (pLac # pLacs) outs)) \<inter> frozTargNodes st = {}"
  proof (cases "out = Applied")
    case True
    with o(1) have "targId pLac \<notin> frozTargNodes st" by auto
    moreover have "set (map targId (committed pLacs outs1)) \<inter> frozTargNodes st = {}"
      using ih mono by blast
    ultimately show ?thesis using True outs by simp
  next
    case False
    with o(3) ih outs show ?thesis by simp
  qed
  have a: "\<forall>i<length (pLac # pLacs). targId ((pLac # pLacs) ! i) \<in> frozTargNodes st
             \<longrightarrow> outs ! i = TargetFrozen"
  proof (intro allI impI)
    fix i assume i: "i < length (pLac # pLacs)"
      and m: "targId ((pLac # pLacs) ! i) \<in> frozTargNodes st"
    show "outs ! i = TargetFrozen"
    proof (cases i)
      case 0
      with m o(1) outs show ?thesis by simp
    next
      case (Suc k)
      with i m mono have "k < length pLacs" "targId (pLacs ! k) \<in> frozTargNodes st1" by auto
      with ih have "outs1 ! k = TargetFrozen" by blast
      with Suc outs show ?thesis by simp
    qed
  qed
  have b: "\<forall>i<length (pLac # pLacs). \<forall>j<i. outs ! j = Applied \<and>
             targId ((pLac # pLacs) ! j) = targId ((pLac # pLacs) ! i) \<longrightarrow> outs ! i = TargetFrozen"
  proof (intro allI impI)
    fix i j assume i: "i < length (pLac # pLacs)" and j: "j < i"
      and h: "outs ! j = Applied \<and> targId ((pLac # pLacs) ! j) = targId ((pLac # pLacs) ! i)"
    from j obtain k where ik: "i = Suc k" by (cases i) auto
    with i have k: "k < length pLacs" by simp
    show "outs ! i = TargetFrozen"
    proof (cases j)
      case 0
      with h outs ik have "out = Applied" "targId pLac = targId (pLacs ! k)" by simp_all
      with o(2) have "targId (pLacs ! k) \<in> frozTargNodes st1" by simp
      with ih k have "outs1 ! k = TargetFrozen" by blast
      with ik outs show ?thesis by simp
    next
      case (Suc l)
      with h outs ik j have "l < k" "outs1 ! l = Applied \<and> targId (pLacs ! l) = targId (pLacs ! k)"
        by simp_all
      with ih k have "outs1 ! k = TargetFrozen" by blast
      with ik outs show ?thesis by simp
    qed
  qed
  from len froz dist disj a b show ?case by blast
qed


subsection \<open>An example run\<close>

text \<open>
  A deviation network for one output whose output is constant 0, and collaborators for the
  example network: every miter is unsatisfiable except one that holds a buffer, on which the
  solver gives up; the sweep deletes the nodes without fanouts.
\<close>

definition example_dev :: Abc_Ntk where
  "example_dev =
     \<lparr>ObjType = (\<lambda>i. if i = 1 \<or> i = 2 then Some ABC_OBJ_PI
                      else if i = 3 then Some ABC_OBJ_NODE
                      else if i = 4 then Some ABC_OBJ_PO else None),
      vFanins = (\<lambda>i. if i = 4 then [3] else []),
      vFanouts = (\<lambda>i. if i = 3 then [4] else []),
      pData = (\<lambda>i. if i = 3 then sop_const0 else []),
      ObjName = (\<lambda>i. if i = 1 then ''y_acc'' else if i = 2 then ''y_app'' else if i = 4 then ''f'' else []),
      nObjNumMax = 5, vPis = [1, 2], vPos = [4]\<rparr>"

definition example_sweep :: "Abc_Ntk \<Rightarrow> Abc_Ntk" where
  "example_sweep ntk =
     fold (\<lambda>i n. if IsNode n i \<and> vFanouts n i = []
                  then (case DelObj n i of None \<Rightarrow> n | Some n1 \<Rightarrow> n1) else n)
       (rev [0..<nObjNumMax ntk]) ntk"

definition example_env :: Collab where
  "example_env =
     \<lparr>rnd = (\<lambda>seed0 n i j. False),
      std_sort = insertion_sort,
      Abc_NtkIsAcyclic = (\<lambda>ntk. True),
      Abc_NtkDoCheck = (\<lambda>ntk. True),
      Abc_NtkLevel = (\<lambda>ntk. GetArea ntk),
      Abc_ObjLevel = (\<lambda>ntk i. if IsNode ntk i then i else 0),
      Sweep = example_sweep,
      Comm = (\<lambda>c ntk. ntk),
      GetSizeGain = (\<lambda>ntk i ds. 1),
      GenResubLACs = (\<lambda>ntk. []),
      FastCheck = (\<lambda>ntk patts. False),
      SolveSat = (\<lambda>errMit. if list_ex (\<lambda>i. pData errMit i = sop_buf) [0..<nObjNumMax errMit]
                             then (l_Undef, []) else (l_False, []))\<rparr>"

definition example_opts :: ALSOpt where
  "example_opts = \<lparr>options_metrType = MAXED, options_seed = 0, options_nFrame = 4,
     options_maxCandLacs = 100000, options_errUppBound = 1\<rparr>"

definition example_fs :: flow_state where
  "example_fs = \<lparr>appNet = example_net, round_no = 1, countExNum = 0,
      pAccSmlt = \<lparr>seed = 0, nFrame = 4, distrType = UNIF, dat = (\<lambda>i. replicate 4 False), tempDat = None\<rparr>\<rparr>"

definition lac_one3 :: LAC where
  "lac_one3 = \<lparr>targId = 3, sizeGain = 1, err = 0, err2 = DBL_MAX, divs = [], sop = sop_const1\<rparr>"

lemmas flow_defs = ApplyMultValidLacs_def TryLac_def TempApplyLac_def CreateConstsIfNotExist_def
  GetConstIds_def TempRepl_v2_def next_slot.simps Vec_IntFindFrom_def Abc_ObjTransferFanout_v2_def
  Abc_ObjPatchFanin_def RecovNet_def Recov_v2_def PatchFanin_def Vec_IntRemoveRev_def CreateNode_def
  LAC_IsConst_def LAC_IsConst0_def LAC_IsConst1_def DelObj_def Abc_NtkDeleteObj_def
  Abc_ObjDeleteFanin_def GetFanoutNum_def GetFaninNum_def flow_state.extend_def pass_state.fields_def
  BuildErrMit_def copy_acc_app_def copy_dev_def dup_acc_pis_def dup_app_pis_def
  dup_nodes_def link_nodes_def link_dev_pis_def dup_ref_err_def dup_pos_def link_pos_def
  Abc_ObjChild0Copy_def ComparePi_def ComparePo_def Abc_NtkDupObj_def RenameAbcObj_def
  StartSopNet_def Abc_NtkCreateObj_def Abc_ObjAddFanin_def IsNode_def IsObj_def IsObjPi_def IsObjPo_def
  IsConst_def Abc_NodeIsConst_def Abc_NodeIsConst0_def Abc_NodeIsConst1_def Abc_SopIsConst0_def
  Abc_SopIsConst1_def sop_const0_def sop_const1_def sop_buf_def sop_inv_def sop_and2_def newline_def
  trace_of_pairs_def
  example_net_def example_dev_def example_env_def example_sweep_def example_opts_def example_fs_def
  lac_zero3_def lac_one3_def lac_zero4_def lac_buf_def Let_def upt_conv_Cons

lemma example_pass:
  "map_option (\<lambda>(st, outs). (outs, frozTargNodes st))
     (ApplyMultValidLacs example_env example_opts example_net example_dev
        [lac_zero3, lac_one3, lac_zero4] example_fs {})
   = Some ([Applied, TargetFrozen, Applied], {4, 3})"
  by (simp add: flow_defs cong: prod.case_cong_weak)

text \<open>
  C7. Within one pass of \<open>ApplyMultValidLacs\<close> no two committed candidates have the same
  target: the targets of the committed candidates are distinct and are exactly the freeze set
  at the end of the pass; a candidate that comes after a committed candidate with the same
  target is skipped as frozen; and a candidate whose target is frozen leaves the state as it
  is, whatever the collaborators are, so it is neither applied nor verified.
\<close>

theorem ApplyMultValidLacs_freezes_targets:
  assumes "ApplyMultValidLacs env opts accNet devNet pLacs fs blackList = Some (st, outs)"
  shows "length outs = length pLacs \<and>
     distinct (map targId (committed pLacs outs)) \<and>
     frozTargNodes st = set (map targId (committed pLacs outs)) \<and>
     (\<forall>i<length pLacs. \<forall>j<i. outs ! j = Applied \<and> targId (pLacs ! j) = targId (pLacs ! i)
         \<longrightarrow> outs ! i = TargetFrozen) \<and>
     (\<forall>s pLac. targId pLac \<in> frozTargNodes s
         \<longrightarrow> TryLac env opts accNet devNet s pLac = Some (s, TargetFrozen))"
proof -
  from assms obtain st0 where
    run: "TryLacs env opts accNet devNet pLacs
            (flow_state.extend fs
               (pass_state.fields blackList (replicate (length (vPis accNet)) []) {} False))
          = Some (st0, outs)"
    and fr: "frozTargNodes st = frozTargNodes st0"
    by (auto simp: ApplyMultValidLacs_def split: if_splits option.splits)
  have init: "frozTargNodes (flow_state.extend fs
      (pass_state.fields blackList (replicate (length (vPis accNet)) []) {} False)) = {}"
    by (simp add: flow_state.extend_def pass_state.fields_def)
  from TryLacs_freeze [OF run] init fr TryLac_frozen show ?thesis by auto
qed

theorem ApplyMultValidLacs_freezes_targets_witness:
  "\<exists>st outs. ApplyMultValidLacs example_env example_opts example_net example_dev
        [lac_zero3, lac_one3, lac_zero4] example_fs {} = Some (st, outs) \<and>
     outs = [Applied, TargetFrozen, Applied] \<and>
     distinct (map targId (committed [lac_zero3, lac_one3, lac_zero4] outs)) \<and>
     frozTargNodes st = set (map targId (committed [lac_zero3, lac_one3, lac_zero4] outs))"
proof -
  from example_pass obtain st where
    run: "ApplyMultValidLacs example_env example_opts example_net example_dev
        [lac_zero3, lac_one3, lac_zero4] example_fs {} = Some (st, [Applied, TargetFrozen, Applied])"
    by (auto simp: map_option_case split: option.splits)
  from ApplyMultValidLacs_freezes_targets [OF run] run show ?thesis by blast
qed

subsection \<open>Size and depth over the rounds\<close>

text \<open>
  What the loop checks after a pass, read off the log of the rounds: a pass without a commit
  is the last one; after a pass with a commit the size is smaller than before, or it is the
  same and the depth is not larger; and when both are the same the round is the last one.
  \<open>oldSize\<close> and \<open>oldDepth\<close> are the values before the first round of the log.
\<close>

fun non_regressing ::
  "Collab \<Rightarrow> nat \<Rightarrow> nat \<Rightarrow> (LAC list \<times> outcome list \<times> pass_state) list \<Rightarrow> bool" where
  "non_regressing env oldSize oldDepth [] = True"
| "non_regressing env oldSize oldDepth ((pLacs, outs, st) # rounds) =
     (if \<not> existValidLac st then rounds = []
      else (GetArea (appNet st) < oldSize \<or>
              (GetArea (appNet st) = oldSize \<and> Abc_NtkLevel env (appNet st) \<le> oldDepth)) \<and>
           (if GetArea (appNet st) = oldSize \<and> Abc_NtkLevel env (appNet st) = oldDepth
            then rounds = []
            else non_regressing env (GetArea (appNet st)) (Abc_NtkLevel env (appNet st)) rounds))"

lemma SimplifyLoop_non_regressing:
  "SimplifyLoop env opts cands accNet devNet fs blackList oldSize oldDepth = Some (fs', rounds)
     \<Longrightarrow> non_regressing env oldSize oldDepth rounds"
proof (induction env opts cands accNet devNet fs blackList oldSize oldDepth arbitrary: fs' rounds
    rule: SimplifyLoop.induct)
  case (1 env opts cands accNet devNet fs blackList oldSize oldDepth)
  from "1.prems" "1.IH" show ?case
    by (subst (asm) SimplifyLoop.simps) (auto split: option.splits if_splits)
qed

lemma SimplifyLoop_regress_aborts:
  assumes "cands fs blackList = Some (Some pLacs)"
    and "ApplyMultValidLacs env opts accNet devNet pLacs fs blackList = Some (st, outs)"
    and "existValidLac st"
    and "\<not> (GetArea (appNet st) < oldSize \<or>
            (GetArea (appNet st) = oldSize \<and> Abc_NtkLevel env (appNet st) \<le> oldDepth))"
  shows "SimplifyLoop env opts cands accNet devNet fs blackList oldSize oldDepth = None"
  using assms by (subst SimplifyLoop.simps) simp

lemma SimplifyWithSingleLac_non_regressing:
  assumes "SimplifyWithSingleLac env opts lacType inclConst fSimplify accNet devNet fs = Some (fs', rounds)"
  shows "non_regressing env (GetArea (appNet fs)) (Abc_NtkLevel env (appNet fs)) rounds"
  using assms
  by (auto simp: SimplifyWithSingleLac_def split: if_splits option.splits
      dest: SimplifyLoop_non_regressing)

lemma SimplifyWithSingleLac_zero_bound:
  "options_errUppBound opts = 0 \<Longrightarrow>
     SimplifyWithSingleLac env opts lacType inclConst fSimplify accNet devNet fs = Some (fs, [])"
  by (simp add: SimplifyWithSingleLac_def)






text \<open>
  C10. With an error upper bound of 0 \<open>SimplifyWithSingleLac\<close> returns at once: the state it
  returns (the approximate network, the round counter, the counter of the counterexamples and
  the simulator that holds them) is the state it was given, and the log of the rounds is
  empty, so no candidate was generated and no pass was run. The blacklist is a local variable
  that is declared after the return, so there is none to change.
\<close>

theorem SimplifyWithSingleLac_zero_bound_returns:
  assumes "options_errUppBound opts = 0"
  shows "SimplifyWithSingleLac env opts lacType inclConst fSimplify accNet devNet fs = Some (fs, [])"
  using assms by (rule SimplifyWithSingleLac_zero_bound)

theorem SimplifyWithSingleLac_zero_bound_returns_witness:
  "options_errUppBound (example_opts\<lparr>options_errUppBound := 0\<rparr>) = 0 \<and>
   SimplifyWithSingleLac example_env (example_opts\<lparr>options_errUppBound := 0\<rparr>) CONSTANT True False
     example_net example_dev example_fs = Some (example_fs, [])"
  using SimplifyWithSingleLac_zero_bound_returns
    [of "example_opts\<lparr>options_errUppBound := 0\<rparr>" example_env CONSTANT True False example_net example_dev example_fs]
  by simp

end
